theory Spec2Isabelle
  imports Complex_Main
begin

unbundle bit_operations_syntax

section \<open>Numbers\<close>

text \<open>
  The layout code computes with Go's \<open>int\<close> and \<open>float64\<close>.  Pixel coordinates, gaps and
  client counts are far away from the 64-bit limits, so \<open>int\<close> values are unbounded
  integers here.  A \<open>float64\<close> is modelled by the exact rational it denotes: products and
  quotients are exact, and the only rounding is the explicit \<open>math.Round\<close>.  Every concrete
  evaluation below uses inputs on which the float64 computation yields the same integers.
\<close>

definition go_round :: "rat \<Rightarrow> int" where
  \<comment> \<open>\<open>int(math.Round(x))\<close>: nearest integer, halves away from zero.\<close>
  "go_round x = (if x < 0 then - \<lfloor>- x + 1 / 2\<rfloor> else \<lfloor>x + 1 / 2\<rfloor>)"

definition go_rem :: "int \<Rightarrow> int \<Rightarrow> int" where
  \<comment> \<open>Go's \<open>a % b\<close> for \<open>b \<noteq> 0\<close>: the remainder of the division truncated towards zero.\<close>
  "go_rem a b = sgn a * (\<bar>a\<bar> mod \<bar>b\<bar>)"

definition slice_at :: "'a list \<Rightarrow> int \<Rightarrow> 'a option" where
  \<comment> \<open>Slice indexing \<open>xs[i]\<close>; \<open>None\<close> stands for the index-out-of-range panic.\<close>
  "slice_at xs i = (if 0 \<le> i \<and> i < int (length xs) then Some (xs ! nat i) else None)"

datatype panic = IndexOutOfRange | IntegerDivideByZero

section \<open>Clients and the window system\<close>

text \<open>
  \<open>store.Client\<close> with the snapshots it keeps.  The hint structures of the windowing
  library are not read by the functions modelled here and are left out of \<open>Dimensions\<close>.
  The window system is represented by the list of requests sent to it; what it reports
  about a window afterwards (\<open>GetInfo\<close>) is a parameter of the model.
\<close>

record FrameExtents =
  Left :: int
  Right :: int
  Top :: int
  Bottom :: int

record Geometry =
  X :: int
  Y :: int
  Width :: int
  Height :: int

record Location =
  Desktop :: nat
  Screen :: nat

record Dimensions =
  Geometry :: Geometry
  Extents :: FrameExtents
  AdjPos :: bool
  AdjSize :: bool
  AdjRestore :: bool

record Info =
  Class :: string
  Name :: string
  Types :: "string list"
  States :: "string list"
  Location :: Location
  Dimensions :: Dimensions

record Client =
  Window :: nat
  Original :: Info
  Cached :: Info
  Latest :: Info
  Locked :: bool

datatype request =
    ewmh_WmStateRemove nat string
  | ewmh_MoveresizeWindow nat int int int int
  | ewmh_MoveWindow nat int int

definition Lock :: "Client \<Rightarrow> Client" where
  "Lock c = c\<lparr>Locked := True\<rparr>"

definition UnLock :: "Client \<Rightarrow> Client" where
  "UnLock c = c\<lparr>Locked := False\<rparr>"

definition IsFullscreen :: "Info \<Rightarrow> bool" where
  "IsFullscreen info = (''_NET_WM_STATE_FULLSCREEN'' \<in> set (States info))"

definition IsMaximized :: "Info \<Rightarrow> bool" where
  "IsMaximized info =
     (''_NET_WM_STATE_MAXIMIZED_VERT'' \<in> set (States info)
      \<or> ''_NET_WM_STATE_MAXIMIZED_HORZ'' \<in> set (States info))"

definition UnMaximize :: "Client \<times> request list \<Rightarrow> bool \<times> Client \<times> request list" where
  "UnMaximize S =
     (if \<not> IsMaximized (Latest (fst S)) then (False, S)
      else (True, fst S,
            snd S @ [ewmh_WmStateRemove (Window (fst S)) ''_NET_WM_STATE_MAXIMIZED_VERT'',
                     ewmh_WmStateRemove (Window (fst S)) ''_NET_WM_STATE_MAXIMIZED_HORZ'']))"

definition UnFullscreen :: "Client \<times> request list \<Rightarrow> bool \<times> Client \<times> request list" where
  "UnFullscreen S =
     (if \<not> IsFullscreen (Latest (fst S)) then (False, S)
      else (True, fst S,
            snd S @ [ewmh_WmStateRemove (Window (fst S)) ''_NET_WM_STATE_FULLSCREEN'']))"

definition Update ::
  "(request list \<Rightarrow> nat \<Rightarrow> Info) \<Rightarrow> Client \<times> request list \<Rightarrow> Client \<times> request list" where
  "Update getinfo S =
     (let info = getinfo (snd S) (Window (fst S))
      in if length (Class info) = 0 then S else ((fst S)\<lparr>Latest := info\<rparr>, snd S))"

definition MoveWindow ::
  "(request list \<Rightarrow> nat \<Rightarrow> Info) \<Rightarrow> int \<Rightarrow> int \<Rightarrow> int \<Rightarrow> int
     \<Rightarrow> Client \<times> request list \<Rightarrow> Client \<times> request list" where
  "MoveWindow getinfo x y w h S =
     (if Locked (fst S) then (UnLock (fst S), snd S)
      else
        let S1 = snd (UnMaximize S);
            S2 = snd (UnFullscreen S1);
            c = fst S2;
            ext = Extents (Dimensions (Latest c));
            dx = (if AdjPos (Dimensions (Latest c)) then Left ext else 0);
            dy = (if AdjPos (Dimensions (Latest c)) then Top ext else 0);
            dw = (if AdjSize (Dimensions (Latest c)) then Left ext + Right ext else 0);
            dh = (if AdjSize (Dimensions (Latest c)) then Top ext + Bottom ext else 0);
            r = (if w > 0 \<and> h > 0
                 then ewmh_MoveresizeWindow (Window c) (x + dx) (y + dy) (w - dw) (h - dh)
                 else ewmh_MoveWindow (Window c) (x + dx) (y + dy))
        in Update getinfo (c, snd S2 @ [r]))"

section \<open>The layout manager's data\<close>

text \<open>
  A client is referred to by its pointer; the model uses a natural number for it.  The
  \<open>store.Manager\<close> holds the two partitions with their allowed counts and the three
  proportion vectors; \<open>VerticalLayout\<close> embeds the manager and adds the layout name.
\<close>

record Clients =
  Clients :: "nat list"
  Allowed :: int

record Proportions =
  MasterSlave :: "rat list"
  MasterMaster :: "rat list"
  SlaveSlave :: "rat list"

record VerticalLayout =
  Name :: string
  DeskNum :: nat
  Proportions :: Proportions
  Masters :: Clients
  Slaves :: Clients

definition AllClients :: "VerticalLayout \<Rightarrow> nat list" where
  \<comment> \<open>Modelled from the spec: \<open>Manager.Clients()\<close> is not part of the sources at hand; the
      client sequence is the masters followed by the slaves.\<close>
  "AllClients l = Clients (Masters l) @ Clients (Slaves l)"

definition IsMaster :: "VerticalLayout \<Rightarrow> nat \<Rightarrow> bool" where
  \<comment> \<open>Modelled from the spec: \<open>Manager.IsMaster\<close> is not part of the sources at hand; a
      client is a master when it is in the master partition.\<close>
  "IsMaster l c = (c \<in> set (Clients (Masters l)))"

primrec Index :: "nat list \<Rightarrow> nat \<Rightarrow> int" where
  \<comment> \<open>Modelled from the spec: \<open>Manager.Index\<close> is not part of the sources at hand; the
      position of the client in the list, and -1 when it is absent.\<close>
  "Index [] c = - 1"
| "Index (x # xs) c = (if x = c then 0 else if Index xs c < 0 then - 1 else Index xs c + 1)"

definition SetProportions :: "rat \<Rightarrow> rat list \<Rightarrow> rat \<Rightarrow> int \<Rightarrow> int \<Rightarrow> rat list" where
  \<comment> \<open>Modelled from the spec: \<open>Manager.SetProportions\<close> is not part of the sources at hand.
      It sets entry \<open>i\<close> to the value and gives entry \<open>j\<close> what is left of the two entries'
      old sum; it does nothing when the indices coincide or one is outside the vector.  The
      minimum floor \<open>pmin\<close> is a parameter: the value is clamped so that neither entry of
      the pair drops below the floor.\<close>
  "SetProportions pmin ps val i j =
     (if i = j \<or> i < 0 \<or> int (length ps) \<le> i \<or> j < 0 \<or> int (length ps) \<le> j then ps
      else
        let total = ps ! nat i + ps ! nat j;
            v = max pmin (min (total - pmin) val)
        in ps[nat i := v, nat j := total - v])"

section \<open>The placement pass\<close>

text \<open>
  \<open>Do\<close> issues one \<open>MoveResize\<close> per client.  The world it acts on is a pair: the state
  \<open>\<sigma>\<close> of the client objects and of the window system, and the trace of the calls made so
  far.  \<open>Client.MoveResize\<close> itself is not part of the sources at hand, so its effect on
  \<open>\<sigma>\<close> is the parameter \<open>mr\<close>.
\<close>

type_synonym call = "nat \<times> int \<times> int \<times> int \<times> int"

definition MoveResize ::
  "(nat \<Rightarrow> int \<Rightarrow> int \<Rightarrow> int \<Rightarrow> int \<Rightarrow> 's \<Rightarrow> 's) \<Rightarrow> nat \<Rightarrow> int \<Rightarrow> int \<Rightarrow> int \<Rightarrow> int
     \<Rightarrow> 's \<times> call list \<Rightarrow> 's \<times> call list" where
  "MoveResize mr c x y w h W = (mr c x y w h (fst W), snd W @ [(c, x, y, w, h)])"

text \<open>
  The two loops of \<open>Do\<close> over \<open>l.Masters.Clients\<close> and \<open>l.Slaves.Clients\<close> have the same
  body up to the names of their variables; \<open>place_loop\<close> is that body, with the loop index
  \<open>i\<close> and the running offset \<open>y\<close> as arguments.  \<open>amax\<close> is the allowed count, \<open>asize\<close> the
  row size, \<open>ps\<close> the proportion vector of the partition, \<open>x\<close> and \<open>w\<close> the column position
  and width handed to \<open>MoveResize\<close>.
\<close>

fun place_loop ::
  "(nat \<Rightarrow> int \<Rightarrow> int \<Rightarrow> int \<Rightarrow> int \<Rightarrow> 's \<Rightarrow> 's) \<Rightarrow> int \<Rightarrow> int \<Rightarrow> int \<Rightarrow> int \<Rightarrow> int
     \<Rightarrow> rat list \<Rightarrow> int \<Rightarrow> int \<Rightarrow> int \<Rightarrow> int \<Rightarrow> nat list
     \<Rightarrow> 's \<times> call list \<Rightarrow> ('s \<times> call list) \<times> panic option" where
  "place_loop mr dy dh gap amax asize ps x w i y [] W = (W, None)"
| "place_loop mr dy dh gap amax asize ps x w i y (c # cs) W =
     (let y = (if go_rem i amax = 0 then dy + gap else y) in
      case slice_at ps (go_rem i asize) of
        None \<Rightarrow> (W, Some IndexOutOfRange)
      | Some p \<Rightarrow>
          let h = go_round (of_int (dh - (asize + 1) * gap) * p) in
          place_loop mr dy dh gap amax asize ps x w (i + 1) (y + h + gap) cs
            (MoveResize mr c x y w h W))"

definition Do ::
  "(nat \<Rightarrow> int \<Rightarrow> int \<Rightarrow> int \<Rightarrow> int \<Rightarrow> 's \<Rightarrow> 's) \<Rightarrow> int \<times> int \<times> int \<times> int \<Rightarrow> int
     \<Rightarrow> VerticalLayout \<Rightarrow> 's \<times> call list \<Rightarrow> ('s \<times> call list) \<times> panic option" where
  "Do mr desk gap l W =
     (case desk of (dx, dy, dw, dh) \<Rightarrow>
      let mmax = Allowed (Masters l);
          smax = Allowed (Slaves l);
          msize = min (int (length (Clients (Masters l)))) mmax;
          ssize = min (int (length (Clients (Slaves l)))) smax;
          csize = int (length (AllClients l));
          mx = dx
      in (case slice_at (MasterSlave (Proportions l)) 0 of
           None \<Rightarrow> (W, Some IndexOutOfRange)
         | Some ms0 \<Rightarrow>
             let mw = go_round (of_int dw * ms0);
                 sx = mx + mw;
                 sw = dw - mw;
                 swap = (Name l = ''vertical-right'' \<and> csize > mmax);
                 mx' = (if swap then sx else mx);
                 mw' = (if swap then sw else mw);
                 sx' = (if swap then mx + gap else sx);
                 sw' = (if swap then mw else sw);
                 R = (if msize > 0
                      then place_loop mr dy dh gap mmax msize (MasterMaster (Proportions l))
                             (mx' + gap) ((if ssize = 0 then dw else mw') - 2 * gap) 0 0
                             (Clients (Masters l)) W
                      else (W, None))
             in (case snd R of
                   Some e \<Rightarrow> R
                 | None \<Rightarrow>
                     if ssize > 0
                     then place_loop mr dy dh gap smax ssize (SlaveSlave (Proportions l))
                            (if msize = 0 then dx + gap else sx')
                            ((if msize = 0 then dw - gap else sw') - gap) 0 0
                            (Clients (Slaves l)) (fst R)
                     else R)))"

section \<open>Inferring proportions from a resize\<close>

text \<open>
  \<open>store.Directions\<close> tells which edges of the client moved.  \<open>UpdateProportions\<close> swaps
  its \<open>Left\<close> and \<open>Right\<close> flags in place for the left layout, so the flags are returned
  together with the layout.  \<open>geom\<close> is what \<open>c.OuterGeometry()\<close> reports.  The remainder
  \<open>% mmax\<close> panics when the allowed count is zero.  Where a float64 quotient has a zero
  denominator Go yields an infinity or NaN, which the rationals do not have; statements
  about the quotient's value assume a denominator other than zero.
\<close>

record Directions =
  Top :: bool
  Right :: bool
  Bottom :: bool
  Left :: bool

definition UpdateProportions ::
  "rat \<Rightarrow> int \<times> int \<times> int \<times> int \<Rightarrow> int \<Rightarrow> int \<times> int \<times> int \<times> int
     \<Rightarrow> VerticalLayout \<Rightarrow> nat \<Rightarrow> Directions \<Rightarrow> panic + VerticalLayout \<times> Directions" where
  "UpdateProportions pmin desk gap geom l c d0 =
     (case desk of (dx, dy, dw, dh) \<Rightarrow>
      case geom of (cx, cy, cw, ch) \<Rightarrow>
      let mmax = Allowed (Masters l);
          smax = Allowed (Slaves l);
          msize = min (int (length (Clients (Masters l)))) mmax;
          ssize = min (int (length (Clients (Slaves l)))) smax;
          left = (Name l = ''vertical-left'');
          d = (if left then d0\<lparr>Left := Right d0, Right := Left d0\<rparr> else d0);
          idxms0 = (if left then 1 else 0);
          idxms = (if IsMaster l c then idxms0 XOR 1 else idxms0);
          P = Proportions l
      in if IsMaster l c
         then
           let px = of_int (cw + 2 * gap) / of_int dw;
               py = of_int ch / of_int (dh - (msize + 1) * gap)
           in if mmax = 0 then Inl IntegerDivideByZero
              else
                let idxmm = go_rem (Index (Clients (Masters l)) c) mmax;
                    P1 = (if Left d
                          then P\<lparr>MasterSlave :=
                                   SetProportions pmin (MasterSlave P) px idxms (idxms XOR 1)\<rparr>
                          else P);
                    P2 = (if Top d
                          then P1\<lparr>MasterMaster :=
                                    SetProportions pmin (MasterMaster P1) py idxmm (idxmm - 1)\<rparr>
                          else if Bottom d
                          then P1\<lparr>MasterMaster :=
                                    SetProportions pmin (MasterMaster P1) py idxmm (idxmm + 1)\<rparr>
                          else P1)
                in Inr (l\<lparr>Proportions := P2\<rparr>, d)
         else
           let px = of_int (cw + gap) / of_int dw;
               py = of_int ch / of_int (dh - (ssize + 1) * gap)
           in if smax = 0 then Inl IntegerDivideByZero
              else
                let idxss = go_rem (Index (Clients (Slaves l)) c) smax;
                    P1 = (if Right d
                          then P\<lparr>MasterSlave :=
                                   SetProportions pmin (MasterSlave P) px idxms (idxms XOR 1)\<rparr>
                          else P);
                    P2 = (if Top d
                          then P1\<lparr>SlaveSlave :=
                                    SetProportions pmin (SlaveSlave P1) py idxss (idxss - 1)\<rparr>
                          else if Bottom d
                          then P1\<lparr>SlaveSlave :=
                                    SetProportions pmin (SlaveSlave P1) py idxss (idxss + 1)\<rparr>
                          else P1)
                in Inr (l\<lparr>Proportions := P2\<rparr>, d))"

section \<open>Closed forms of a placement pass\<close>

text \<open>
  The following definitions are not part of the program; they describe its output and are
  proved equal to it below.  \<open>stack\<close> lists the calls for a column whose clients are stacked
  from offset \<open>y\<close> with the given heights; \<open>heights\<close> are the rounded row shares;
  \<open>split_width\<close> is the rounded width of the left column; \<open>swapped\<close> is the condition under
  which \<open>Do\<close> exchanges the columns.  \<open>capped\<close> says that neither partition holds more
  clients than allowed and that the proportion vectors are long enough to be indexed.
  \<open>overlap\<close> holds for two calls whose rectangles \<open>[x, x + w) \<times> [y, y + h)\<close> share a pixel.
\<close>

fun stack :: "int \<Rightarrow> int \<Rightarrow> int \<Rightarrow> int \<Rightarrow> int list \<Rightarrow> nat list \<Rightarrow> call list" where
  "stack x w gap y (h # hs) (c # cs) = (c, x, y, w, h) # stack x w gap (y + h + gap) hs cs"
| "stack x w gap y hs cs = []"

definition heights :: "int \<Rightarrow> int \<Rightarrow> int \<Rightarrow> rat list \<Rightarrow> int list" where
  "heights dh gap asize ps = map (\<lambda>p. go_round (of_int (dh - (asize + 1) * gap) * p)) ps"

definition apply_calls ::
  "(nat \<Rightarrow> int \<Rightarrow> int \<Rightarrow> int \<Rightarrow> int \<Rightarrow> 's \<Rightarrow> 's) \<Rightarrow> call list \<Rightarrow> 's \<Rightarrow> 's" where
  "apply_calls mr calls \<sigma> = fold (\<lambda>(c, x, y, w, h). mr c x y w h) calls \<sigma>"

definition split_width :: "int \<Rightarrow> VerticalLayout \<Rightarrow> int" where
  "split_width dw l = go_round (of_int dw * MasterSlave (Proportions l) ! 0)"

definition swapped :: "VerticalLayout \<Rightarrow> bool" where
  "swapped l = (Name l = ''vertical-right''
                \<and> int (length (AllClients l)) > Allowed (Masters l))"

definition master_column :: "int \<Rightarrow> int \<Rightarrow> int \<Rightarrow> VerticalLayout \<Rightarrow> int \<times> int" where
  "master_column dx dw gap l =
     ((if swapped l then dx + split_width dw l else dx) + gap,
      (if Clients (Slaves l) = [] then dw
       else if swapped l then dw - split_width dw l else split_width dw l) - 2 * gap)"

definition slave_column :: "int \<Rightarrow> int \<Rightarrow> int \<Rightarrow> VerticalLayout \<Rightarrow> int \<times> int" where
  "slave_column dx dw gap l =
     (if Clients (Masters l) = [] then dx + gap
      else if swapped l then dx + gap else dx + split_width dw l,
      (if Clients (Masters l) = [] then dw - gap
       else if swapped l then split_width dw l else dw - split_width dw l) - gap)"

definition master_calls :: "int \<times> int \<times> int \<times> int \<Rightarrow> int \<Rightarrow> VerticalLayout \<Rightarrow> call list" where
  "master_calls desk gap l =
     (case desk of (dx, dy, dw, dh) \<Rightarrow>
        stack (fst (master_column dx dw gap l)) (snd (master_column dx dw gap l)) gap (dy + gap)
          (heights dh gap (int (length (Clients (Masters l)))) (MasterMaster (Proportions l)))
          (Clients (Masters l)))"

definition slave_calls :: "int \<times> int \<times> int \<times> int \<Rightarrow> int \<Rightarrow> VerticalLayout \<Rightarrow> call list" where
  "slave_calls desk gap l =
     (case desk of (dx, dy, dw, dh) \<Rightarrow>
        stack (fst (slave_column dx dw gap l)) (snd (slave_column dx dw gap l)) gap (dy + gap)
          (heights dh gap (int (length (Clients (Slaves l)))) (SlaveSlave (Proportions l)))
          (Clients (Slaves l)))"

definition capped :: "VerticalLayout \<Rightarrow> bool" where
  "capped l = (int (length (Clients (Masters l))) \<le> Allowed (Masters l)
     \<and> int (length (Clients (Slaves l))) \<le> Allowed (Slaves l)
     \<and> MasterSlave (Proportions l) \<noteq> []
     \<and> length (Clients (Masters l)) \<le> length (MasterMaster (Proportions l))
     \<and> length (Clients (Slaves l)) \<le> length (SlaveSlave (Proportions l)))"

definition call_x :: "call \<Rightarrow> int" where "call_x r = fst (snd r)"
definition call_y :: "call \<Rightarrow> int" where "call_y r = fst (snd (snd r))"
definition call_w :: "call \<Rightarrow> int" where "call_w r = fst (snd (snd (snd r)))"
definition call_h :: "call \<Rightarrow> int" where "call_h r = snd (snd (snd (snd r)))"

definition overlap :: "call \<Rightarrow> call \<Rightarrow> bool" where
  "overlap a b =
     (max (call_x a) (call_x b) < min (call_x a + call_w a) (call_x b + call_w b)
      \<and> max (call_y a) (call_y b) < min (call_y a + call_h a) (call_y b + call_h b))"

definition no_effect :: "nat \<Rightarrow> int \<Rightarrow> int \<Rightarrow> int \<Rightarrow> int \<Rightarrow> unit \<Rightarrow> unit" where
  "no_effect c x y w h \<sigma> = \<sigma>"

section \<open>Notions used to state the properties\<close>

text \<open>
  \<open>row_rounded\<close> describes how one row of a column is laid out: every height is the
  rounded share of its own proportion, every offset is the sum of the rounded heights and
  gaps above it, and for a full row the distance of the last bottom edge from the bottom
  inset is the sum of the rounding residuals of the row.
\<close>

definition row_rounded :: "int \<Rightarrow> int \<Rightarrow> int \<Rightarrow> rat list \<Rightarrow> call list \<Rightarrow> bool" where
  "row_rounded dy dh gap ps col =
     (let A = rat_of_int (dh - (int (length col) + 1) * gap) in
      (\<forall>i<length col.
          call_h (col ! i) = go_round (A * ps ! i)
          \<and> \<bar>rat_of_int (call_h (col ! i)) - A * ps ! i\<bar> \<le> 1 / 2
          \<and> call_y (col ! i) = dy + gap + (\<Sum>j<i. call_h (col ! j) + gap))
      \<and> (col \<noteq> [] \<and> length ps = length col \<and> sum_list ps = 1 \<longrightarrow>
           rat_of_int (call_y (last col) + call_h (last col) - (dy + dh - gap))
           = (\<Sum>i<length col. rat_of_int (call_h (col ! i)) - A * ps ! i)))"

text \<open>
  \<open>last_absorbs_drift\<close> is the reading of the specification to compare the code with: the
  last client of a row takes up what the rounding of the others leaves, that is, its height
  is the desktop height minus the gaps and minus the heights of the clients above it.
\<close>

definition last_absorbs_drift :: "int \<Rightarrow> int \<Rightarrow> call list \<Rightarrow> bool" where
  "last_absorbs_drift dh gap col =
     (col \<noteq> []
      \<and> call_h (last col)
        = dh - (int (length col) + 1) * gap - sum_list (map call_h (butlast col)))"

text \<open>
  \<open>inset_within desk gap tol r\<close>: the rectangle of the call lies inside the desktop inset by
  the gap, where its bottom edge may exceed the inset by \<open>tol\<close> half pixels; with \<open>tol = 0\<close>
  it lies fully inside.  \<open>fills_width\<close> and \<open>fills_height\<close>: the widths of the columns,
  respectively the heights of a column, add up with their gaps to the desktop's extent,
  the heights up to half a pixel per client.  \<open>proper_row\<close>: the proportion vector has one
  non-negative entry per client of the row, and the entries sum to 1.
\<close>

definition inset_within :: "int \<times> int \<times> int \<times> int \<Rightarrow> int \<Rightarrow> int \<Rightarrow> call \<Rightarrow> bool" where
  "inset_within desk gap tol r =
     (case desk of (dx, dy, dw, dh) \<Rightarrow>
        dx + gap \<le> call_x r \<and> call_x r + call_w r \<le> dx + dw - gap
        \<and> dy + gap \<le> call_y r \<and> 2 * (call_y r + call_h r) \<le> 2 * (dy + dh - gap) + tol)"

definition fills_width :: "int \<Rightarrow> int \<Rightarrow> call list \<Rightarrow> call list \<Rightarrow> bool" where
  "fills_width dw gap M S =
     ((\<forall>a\<in>set M. \<forall>b\<in>set S. call_w a + call_w b + 3 * gap = dw)
      \<and> (S = [] \<longrightarrow> (\<forall>a\<in>set M. call_w a + 2 * gap = dw))
      \<and> (M = [] \<longrightarrow> (\<forall>b\<in>set S. call_w b + 2 * gap = dw)))"

definition fills_height :: "int \<Rightarrow> int \<Rightarrow> call list \<Rightarrow> bool" where
  "fills_height dh gap col =
     (col = []
      \<or> \<bar>2 * (sum_list (map call_h col) + (int (length col) + 1) * gap - dh)\<bar> \<le> int (length col))"

definition proper_row :: "rat list \<Rightarrow> nat list \<Rightarrow> bool" where
  "proper_row ps cs = (length ps = length cs \<and> (\<forall>p\<in>set ps. 0 \<le> p) \<and> (cs = [] \<or> sum_list ps = 1))"

text \<open>
  Consecutive passes over an unchanged layout: each pass starts from the state the previous
  one left, and its calls and its outcome are recorded.
\<close>

fun Do_passes ::
  "(nat \<Rightarrow> int \<Rightarrow> int \<Rightarrow> int \<Rightarrow> int \<Rightarrow> 's \<Rightarrow> 's) \<Rightarrow> int \<times> int \<times> int \<times> int \<Rightarrow> int
     \<Rightarrow> VerticalLayout \<Rightarrow> nat \<Rightarrow> 's \<Rightarrow> (call list \<times> panic option) list" where
  "Do_passes mr desk gap l 0 \<sigma> = []"
| "Do_passes mr desk gap l (Suc n) \<sigma> =
     (snd (fst (Do mr desk gap l (\<sigma>, []))), snd (Do mr desk gap l (\<sigma>, [])))
     # Do_passes mr desk gap l n (fst (fst (Do mr desk gap l (\<sigma>, []))))"

text \<open>
  For \<open>UpdateProportions\<close>: the index of the client within its row and the size of that row,
  as the function computes them; the vector of the client's partition; whether the moved
  edge is the one shared with the other partition (the flags are as the caller passes them,
  before the function reorients them); whether the moved edge has a neighbour of the same
  row on its other side; and whether each row vector has one entry per client of a row.
\<close>

definition row_index :: "VerticalLayout \<Rightarrow> nat \<Rightarrow> int" where
  "row_index l c =
     (if IsMaster l c then go_rem (Index (Clients (Masters l)) c) (Allowed (Masters l))
      else go_rem (Index (Clients (Slaves l)) c) (Allowed (Slaves l)))"

definition row_size :: "VerticalLayout \<Rightarrow> nat \<Rightarrow> int" where
  "row_size l c =
     (if IsMaster l c then min (int (length (Clients (Masters l)))) (Allowed (Masters l))
      else min (int (length (Clients (Slaves l)))) (Allowed (Slaves l)))"

definition row_vector :: "VerticalLayout \<Rightarrow> nat \<Rightarrow> rat list" where
  "row_vector l c =
     (if IsMaster l c then MasterMaster (Proportions l) else SlaveSlave (Proportions l))"

definition faces_other_partition :: "VerticalLayout \<Rightarrow> nat \<Rightarrow> Directions \<Rightarrow> bool" where
  "faces_other_partition l c d =
     (if VerticalLayout.Name l = ''vertical-left''
      then (if IsMaster l c then Right d else Left d)
      else (if IsMaster l c then Left d else Right d))"

definition neighbour_moved :: "VerticalLayout \<Rightarrow> nat \<Rightarrow> Directions \<Rightarrow> bool" where
  "neighbour_moved l c d =
     (if Top d then 0 < row_index l c \<and> row_index l c < row_size l c
      else Bottom d \<and> 0 \<le> row_index l c \<and> row_index l c + 1 < row_size l c)"

definition rows_sized :: "VerticalLayout \<Rightarrow> bool" where
  "rows_sized l =
     (int (length (MasterMaster (Proportions l)))
        = min (int (length (Clients (Masters l)))) (Allowed (Masters l))
      \<and> int (length (SlaveSlave (Proportions l)))
        = min (int (length (Clients (Slaves l)))) (Allowed (Slaves l)))"

section \<open>Example inputs\<close>

definition single_client :: VerticalLayout where
  "single_client =
     \<lparr>VerticalLayout.Name = ''vertical-right'', DeskNum = 0,
      Proportions = \<lparr>MasterSlave = [1 / 2, 1 / 2], MasterMaster = [1], SlaveSlave = []\<rparr>,
      Masters = \<lparr>Clients = [1], Allowed = 1\<rparr>,
      Slaves = \<lparr>Clients = [], Allowed = 2\<rparr>\<rparr>"

definition one_master_two_slaves :: VerticalLayout where
  "one_master_two_slaves =
     \<lparr>VerticalLayout.Name = ''vertical-left'', DeskNum = 0,
      Proportions = \<lparr>MasterSlave = [1 / 2, 1 / 2], MasterMaster = [1],
                     SlaveSlave = [1 / 2, 1 / 2]\<rparr>,
      Masters = \<lparr>Clients = [1], Allowed = 1\<rparr>,
      Slaves = \<lparr>Clients = [2, 3], Allowed = 2\<rparr>\<rparr>"

definition one_master_three_slaves :: VerticalLayout where
  "one_master_three_slaves =
     \<lparr>VerticalLayout.Name = ''vertical-left'', DeskNum = 0,
      Proportions = \<lparr>MasterSlave = [3 / 5, 2 / 5], MasterMaster = [1],
                     SlaveSlave = [1 / 3, 1 / 3, 1 / 3]\<rparr>,
      Masters = \<lparr>Clients = [1], Allowed = 1\<rparr>,
      Slaves = \<lparr>Clients = [2, 3, 4], Allowed = 3\<rparr>\<rparr>"

definition top_moved :: Directions where
  "top_moved = \<lparr>Top = True, Right = False, Bottom = False, Left = False\<rparr>"

definition right_moved :: Directions where
  "right_moved = \<lparr>Top = False, Right = True, Bottom = False, Left = False\<rparr>"

section \<open>Evaluating the rounding\<close>

lemma floor_rat_numeral [simp]:
  "\<lfloor>numeral a / numeral b :: rat\<rfloor> = numeral a div numeral b"
  by (metis floor_divide_of_int_eq of_int_numeral)

lemma floor_rat_neg_numeral [simp]:
  "\<lfloor>- numeral a / numeral b :: rat\<rfloor> = - numeral a div numeral b"
  by (metis floor_divide_of_int_eq of_int_numeral of_int_minus)

section \<open>The loop of a placement pass in closed form\<close>

lemma go_rem_small: "0 \<le> i \<Longrightarrow> i < m \<Longrightarrow> go_rem i m = i"
  by (simp add: go_rem_def sgn_if)

lemma slice_at_in: "0 \<le> i \<Longrightarrow> i < int (length xs) \<Longrightarrow> slice_at xs i = Some (xs ! nat i)"
  by (simp add: slice_at_def)

lemma heights_drop:
  "0 \<le> i \<Longrightarrow> i < int (length ps) \<Longrightarrow>
   drop (nat i) (heights dh gap asize ps)
     = go_round (of_int (dh - (asize + 1) * gap) * (ps ! nat i))
       # drop (nat (i + 1)) (heights dh gap asize ps)"
  by (simp add: heights_def nat_add_distrib flip: drop_map Cons_nth_drop_Suc)

lemma place_loop_stack:
  assumes "0 \<le> i" "i + int (length cs) \<le> asize" "asize \<le> amax" "asize \<le> int (length ps)"
  shows "place_loop mr dy dh gap amax asize ps x w i y cs W
         = ((apply_calls mr (stack x w gap (if i = 0 then dy + gap else y)
                               (drop (nat i) (heights dh gap asize ps)) cs) (fst W),
             snd W @ stack x w gap (if i = 0 then dy + gap else y)
                               (drop (nat i) (heights dh gap asize ps)) cs), None)"
  using assms
proof (induction cs arbitrary: i y W)
  case Nil
  then show ?case by (simp add: apply_calls_def)
next
  case (Cons c cs)
  have i: "0 \<le> i" "i < asize" "i < amax" "i < int (length ps)"
    using Cons.prems by simp_all
  have r1: "go_rem i amax = i" and r2: "go_rem i asize = i"
    using i by (simp_all add: go_rem_small)
  have at: "slice_at ps i = Some (ps ! nat i)"
    using i by (simp add: slice_at_in)
  have IH: "\<And>y W. place_loop mr dy dh gap amax asize ps x w (i + 1) y cs W
         = ((apply_calls mr (stack x w gap y (drop (nat (i + 1)) (heights dh gap asize ps)) cs) (fst W),
             snd W @ stack x w gap y (drop (nat (i + 1)) (heights dh gap asize ps)) cs), None)"
    using Cons.IH [of "i + 1"] Cons.prems by simp
  show ?case
    by (simp add: r1 r2 at IH heights_drop [OF i(1) i(4)] MoveResize_def apply_calls_def Let_def)
qed

lemma place_loop_whole:
  assumes "int (length cs) \<le> amax" "length cs \<le> length ps"
  shows "place_loop mr dy dh gap amax (int (length cs)) ps x w 0 y cs W
         = ((apply_calls mr (stack x w gap (dy + gap) (heights dh gap (int (length cs)) ps) cs) (fst W),
             snd W @ stack x w gap (dy + gap) (heights dh gap (int (length cs)) ps) cs), None)"
  using place_loop_stack [of 0 cs "int (length cs)" amax ps mr dy dh gap x w y W] assms
  by simp

lemma apply_calls_append:
  "apply_calls mr (a @ b) \<sigma> = apply_calls mr b (apply_calls mr a \<sigma>)"
  by (simp add: apply_calls_def)

lemma stack_Nil [simp]: "stack x w gap y hs [] = []"
  by (cases hs) simp_all

lemma Do_stacks:
  assumes "capped l"
  shows "Do mr (dx, dy, dw, dh) gap l W
         = ((apply_calls mr (master_calls (dx, dy, dw, dh) gap l @ slave_calls (dx, dy, dw, dh) gap l) (fst W),
             snd W @ master_calls (dx, dy, dw, dh) gap l @ slave_calls (dx, dy, dw, dh) gap l), None)"
proof -
  let ?ms = "Clients (Masters l)" and ?ss = "Clients (Slaves l)"
  have cm: "int (length ?ms) \<le> Allowed (Masters l)" "length ?ms \<le> length (MasterMaster (Proportions l))"
    and cs: "int (length ?ss) \<le> Allowed (Slaves l)" "length ?ss \<le> length (SlaveSlave (Proportions l))"
    and ms: "MasterSlave (Proportions l) \<noteq> []"
    using assms by (simp_all add: capped_def)
  have msize: "min (int (length ?ms)) (Allowed (Masters l)) = int (length ?ms)"
    and ssize: "min (int (length ?ss)) (Allowed (Slaves l)) = int (length ?ss)"
    using cm cs by simp_all
  have at0: "slice_at (MasterSlave (Proportions l)) 0 = Some (MasterSlave (Proportions l) ! 0)"
    using ms by (simp add: slice_at_def)
  show ?thesis
  proof (cases "?ms = []")
    case True
    then show ?thesis
      unfolding Do_def Let_def prod.case msize ssize at0 option.case
      by (cases "?ss = []")
         (simp_all add: place_loop_whole [OF cs] master_calls_def slave_calls_def
            slave_column_def apply_calls_def)
  next
    case False
    then show ?thesis
      unfolding Do_def Let_def prod.case msize ssize at0 option.case
      by (cases "?ss = []")
         (simp_all add: place_loop_whole [OF cs] place_loop_whole [OF cm] master_calls_def
            slave_calls_def slave_column_def master_column_def swapped_def split_width_def
            apply_calls_append)
  qed
qed

lemma length_stack: "length (stack x w gap y hs cs) = min (length hs) (length cs)"
  by (induction x w gap y hs cs rule: stack.induct) simp_all

lemma stack_nth:
  "k < length hs \<Longrightarrow> k < length cs \<Longrightarrow>
   stack x w gap y hs cs ! k = (cs ! k, x, y + sum_list (take k hs) + int k * gap, w, hs ! k)"
proof (induction x w gap y hs cs arbitrary: k rule: stack.induct)
  case (1 x w gap y h hs c cs)
  show ?case
  proof (cases k)
    case 0
    then show ?thesis by simp
  next
    case (Suc j)
    then show ?thesis using "1.prems" "1.IH" [of j] by (simp add: algebra_simps)
  qed
qed simp_all

lemma map_fst_stack: "length cs \<le> length hs \<Longrightarrow> map fst (stack x w gap y hs cs) = cs"
  by (induction x w gap y hs cs rule: stack.induct) simp_all

lemma go_round_near: "\<bar>of_int (go_round z) - z\<bar> \<le> 1 / 2"
proof -
  have "of_int (go_round z) - z \<le> 1 / 2 \<and> - (of_int (go_round z) - z) \<le> 1 / 2"
  proof (cases "z < 0")
    case True
    define k where "k = \<lfloor>- z + 1 / 2\<rfloor>"
    have "of_int k \<le> - z + 1 / 2" "- z + 1 / 2 < of_int k + 1"
      unfolding k_def by linarith+
    moreover have "rat_of_int (go_round z) = - of_int k"
      using True by (simp add: go_round_def k_def)
    ultimately show ?thesis
      by linarith
  next
    case False
    define k where "k = \<lfloor>z + 1 / 2\<rfloor>"
    have "of_int k \<le> z + 1 / 2" "z + 1 / 2 < of_int k + 1"
      unfolding k_def by linarith+
    moreover have "rat_of_int (go_round z) = of_int k"
      using False by (simp add: go_round_def k_def)
    ultimately show ?thesis
      by linarith
  qed
  then show ?thesis
    by (simp only: abs_le_iff)
qed

lemma go_round_nonneg: "0 \<le> z \<Longrightarrow> 0 \<le> go_round z"
  by (simp add: go_round_def)

lemma sum_go_round_near:
  "\<bar>of_int (sum_list (map (\<lambda>p. go_round (a * p)) ps)) - a * sum_list ps\<bar> \<le> of_nat (length ps) / 2"
proof (induction ps)
  case Nil
  then show ?case by simp
next
  case (Cons p ps)
  let ?A = "rat_of_int (go_round (a * p)) - a * p"
  let ?B = "rat_of_int (sum_list (map (\<lambda>p. go_round (a * p)) ps)) - a * sum_list ps"
  have eq: "rat_of_int (sum_list (map (\<lambda>p. go_round (a * p)) (p # ps))) - a * sum_list (p # ps)
            = ?A + ?B"
    by (simp add: algebra_simps)
  have "\<bar>?A + ?B\<bar> \<le> \<bar>?A\<bar> + \<bar>?B\<bar>"
    by (rule abs_triangle_ineq)
  also have "\<dots> \<le> 1 / 2 + of_nat (length ps) / 2"
    using go_round_near [of "a * p"] Cons.IH by (rule add_mono)
  finally show ?case
    unfolding eq by simp
qed

lemma call_stack_nth:
  assumes "k < length hs" "k < length cs"
  shows "call_x (stack x w gap y hs cs ! k) = x"
    and "call_w (stack x w gap y hs cs ! k) = w"
    and "call_h (stack x w gap y hs cs ! k) = hs ! k"
    and "call_y (stack x w gap y hs cs ! k) = y + sum_list (take k hs) + int k * gap"
  using stack_nth [OF assms] by (simp_all add: call_x_def call_y_def call_w_def call_h_def)

lemma length_heights [simp]: "length (heights dh gap n ps) = length ps"
  by (simp add: heights_def)

lemma heights_nth:
  "i < length ps \<Longrightarrow> heights dh gap n ps ! i = go_round (of_int (dh - (n + 1) * gap) * ps ! i)"
  by (simp add: heights_def)

lemma heights_nonneg:
  assumes "\<forall>p\<in>set ps. 0 \<le> p" "(n + 1) * gap \<le> dh"
  shows "\<forall>h\<in>set (heights dh gap n ps). 0 \<le> h"
proof -
  have "0 \<le> dh - (n + 1) * gap"
    using assms(2) by simp
  then have "(0 :: rat) \<le> of_int (dh - (n + 1) * gap)"
    by (simp only: of_int_0_le_iff)
  then have "0 \<le> go_round (of_int (dh - (n + 1) * gap) * p)" if "p \<in> set ps" for p
    using that assms(1) by (intro go_round_nonneg mult_nonneg_nonneg) simp_all
  then show ?thesis
    by (auto simp: heights_def)
qed

lemma sum_take_Suc: "i < length hs \<Longrightarrow> sum_list (take (Suc i) hs) = sum_list (take i hs) + hs ! i"
  by (simp add: take_Suc_conv_app_nth)

lemma sum_take_mono:
  fixes hs :: "'a :: linordered_idom list"
  assumes "\<forall>h\<in>set hs. 0 \<le> h" "i \<le> j"
  shows "sum_list (take i hs) \<le> sum_list (take j hs)"
proof -
  have "take j hs = take i hs @ take (j - i) (drop i hs)"
    using assms(2) by (metis le_add_diff_inverse take_add)
  moreover have "0 \<le> sum_list (take (j - i) (drop i hs))"
    using assms(1) by (intro sum_list_nonneg) (auto dest: in_set_takeD in_set_dropD)
  ultimately show ?thesis by simp
qed

lemma sum_take_le:
  fixes hs :: "'a :: linordered_idom list"
  assumes "\<forall>h\<in>set hs. 0 \<le> h"
  shows "sum_list (take i hs) \<le> sum_list hs"
proof (cases "i \<le> length hs")
  case True
  then show ?thesis using sum_take_mono [OF assms, of i "length hs"] by simp
next
  case False
  then show ?thesis by simp
qed

text \<open>Within a column, a later rectangle starts at least a gap below an earlier one.\<close>

lemma stack_below:
  assumes "\<forall>h\<in>set hs. 0 \<le> h" "0 \<le> gap" "i < j" "j < length hs" "j < length cs"
  shows "call_y (stack x w gap y hs cs ! i) + call_h (stack x w gap y hs cs ! i) + gap
         \<le> call_y (stack x w gap y hs cs ! j)"
proof -
  have i: "i < length hs" "i < length cs"
    using assms by simp_all
  have "sum_list (take i hs) + hs ! i = sum_list (take (Suc i) hs)"
    using i by (simp add: sum_take_Suc)
  also have "\<dots> \<le> sum_list (take j hs)"
    using assms by (intro sum_take_mono) simp_all
  finally have 1: "sum_list (take i hs) + hs ! i \<le> sum_list (take j hs)" .
  have "int i + 1 \<le> int j"
    using assms(3) by simp
  then have 2: "(int i + 1) * gap \<le> int j * gap"
    using assms(2) by (rule mult_right_mono)
  show ?thesis
    using 1 2 by (simp add: call_stack_nth i assms algebra_simps)
qed

lemma stack_no_overlap:
  assumes "\<forall>h\<in>set hs. 0 \<le> h" "0 \<le> gap" "i < j" "j < length hs" "j < length cs"
  shows "\<not> overlap (stack x w gap y hs cs ! i) (stack x w gap y hs cs ! j)"
  using stack_below [OF assms, of x w y] assms(2) by (simp add: overlap_def)

lemma heights_take: "take k (heights dh gap n ps) = heights dh gap n (take k ps)"
  by (simp add: heights_def take_map)

lemma sum_heights_near:
  "\<bar>rat_of_int (sum_list (heights dh gap n ps)) - of_int (dh - (n + 1) * gap) * sum_list ps\<bar>
     \<le> of_nat (length ps) / 2"
  unfolding heights_def by (rule sum_go_round_near)

lemma stack_top:
  assumes "\<forall>h\<in>set hs. 0 \<le> h" "0 \<le> gap" "j < length hs" "j < length cs"
  shows "y \<le> call_y (stack x w gap y hs cs ! j)"
proof -
  have "0 \<le> sum_list (take j hs)"
    using assms(1) by (intro sum_list_nonneg) (auto dest: in_set_takeD)
  moreover have "0 \<le> int j * gap"
    using assms(2) by simp
  ultimately show ?thesis
    by (simp add: call_stack_nth assms)
qed

lemma stack_bottom:
  assumes "j < length hs" "j < length cs"
  shows "call_y (stack x w gap y hs cs ! j) + call_h (stack x w gap y hs cs ! j)
         = y + sum_list (take (Suc j) hs) + int j * gap"
  using assms by (simp add: call_stack_nth sum_take_Suc)

text \<open>The bottom edge of a client stays within half a pixel per client of the inset.\<close>

lemma column_bottom_bound:
  assumes nonneg: "\<forall>p\<in>set ps. 0 \<le> p"
    and room: "(int (length ps) + 1) * gap \<le> dh"
    and gap: "0 \<le> gap"
    and sum: "sum_list ps = 1"
    and j: "j < length ps" "j < length cs"
  shows "2 * (call_y (stack x w gap (dy + gap) (heights dh gap (int (length ps)) ps) cs ! j)
              + call_h (stack x w gap (dy + gap) (heights dh gap (int (length ps)) ps) cs ! j))
         \<le> 2 * (dy + dh - gap) + int (length ps)"
proof -
  let ?n = "int (length ps)"
  let ?H = "heights dh gap ?n ps"
  define A where "A = rat_of_int (dh - (?n + 1) * gap)"
  define S where "S = sum_list (take (Suc j) ?H)"
  define T where "T = sum_list (take (Suc j) ps)"
  define m where "m = rat_of_nat (Suc j)"
  have A: "0 \<le> A"
    unfolding A_def using room by (simp only: of_int_0_le_iff)
  have len: "length (take (Suc j) ps) = Suc j"
    using j by simp
  have "\<bar>rat_of_int S - A * T\<bar> \<le> m / 2"
    unfolding S_def A_def T_def m_def
    using sum_heights_near [of dh gap ?n "take (Suc j) ps"] by (simp only: heights_take len)
  then have 1: "rat_of_int S \<le> A * T + m / 2"
    by linarith
  have "T \<le> 1"
    unfolding T_def using sum_take_le [OF nonneg, of "Suc j"] sum by simp
  then have "A * T \<le> A * 1"
    using A by (rule mult_left_mono)
  then have 2: "A * T \<le> A"
    by simp
  have 3: "m \<le> of_int ?n"
    unfolding m_def using j by simp
  have "2 * rat_of_int S \<le> 2 * A + of_int ?n"
    using 1 2 3 by linarith
  then have "rat_of_int (2 * S) \<le> rat_of_int (2 * (dh - (?n + 1) * gap) + ?n)"
    unfolding A_def by simp
  then have S: "2 * S \<le> 2 * (dh - (?n + 1) * gap) + ?n"
    by (simp only: of_int_le_iff)
  have "int j + 1 \<le> ?n"
    using j by simp
  then have "(int j + 1) * gap \<le> ?n * gap"
    using gap by (rule mult_right_mono)
  then have G: "int j * gap \<le> ?n * gap - gap"
    by (simp add: algebra_simps)
  have jH: "j < length ?H"
    using j by simp
  show ?thesis
    unfolding stack_bottom [OF jH j(2)] using S G unfolding S_def by (simp add: algebra_simps)
qed

text \<open>The heights of a full row and its gaps add up to the desktop height, up to the same
  tolerance.\<close>

lemma column_total:
  assumes "sum_list ps = 1"
  shows "\<bar>2 * (sum_list (heights dh gap (int (length ps)) ps) + (int (length ps) + 1) * gap - dh)\<bar>
         \<le> int (length ps)"
proof -
  let ?n = "int (length ps)"
  let ?S = "sum_list (heights dh gap ?n ps)"
  have "\<bar>rat_of_int ?S - of_int (dh - (?n + 1) * gap)\<bar> \<le> of_int ?n / 2"
    using sum_heights_near [of dh gap ?n ps] assms by simp
  then have "rat_of_int ?S - of_int (dh - (?n + 1) * gap) \<le> of_int ?n / 2"
    and "- (rat_of_int ?S - of_int (dh - (?n + 1) * gap)) \<le> of_int ?n / 2"
    by (simp_all only: abs_le_iff)
  then have "rat_of_int (2 * (?S + (?n + 1) * gap - dh)) \<le> of_int ?n"
    and "rat_of_int (- (2 * (?S + (?n + 1) * gap - dh))) \<le> of_int ?n"
    by (simp_all add: algebra_simps)
  then have "2 * (?S + (?n + 1) * gap - dh) \<le> ?n" and "- (2 * (?S + (?n + 1) * gap - dh)) \<le> ?n"
    by (simp_all only: of_int_le_iff)
  then show ?thesis
    by (simp only: abs_le_iff)
qed

lemma stack_member:
  "r \<in> set (stack x w gap y hs cs) \<Longrightarrow> call_x r = x \<and> call_w r = w"
  by (induction x w gap y hs cs rule: stack.induct) (auto simp: call_x_def call_w_def)

lemma capped_D:
  assumes "capped l"
  shows "int (length (Clients (Masters l))) \<le> Allowed (Masters l)"
    and "int (length (Clients (Slaves l))) \<le> Allowed (Slaves l)"
    and "length (Clients (Masters l)) \<le> length (MasterMaster (Proportions l))"
    and "length (Clients (Slaves l)) \<le> length (SlaveSlave (Proportions l))"
  using assms by (simp_all add: capped_def)

lemma map_fst_master_calls:
  "capped l \<Longrightarrow> map fst (master_calls (dx, dy, dw, dh) gap l) = Clients (Masters l)"
  by (simp add: master_calls_def map_fst_stack capped_D)

lemma map_fst_slave_calls:
  "capped l \<Longrightarrow> map fst (slave_calls (dx, dy, dw, dh) gap l) = Clients (Slaves l)"
  by (simp add: slave_calls_def map_fst_stack capped_D)

lemma map_fst_calls:
  "capped l \<Longrightarrow>
   map fst (master_calls (dx, dy, dw, dh) gap l @ slave_calls (dx, dy, dw, dh) gap l) = AllClients l"
  by (simp add: map_fst_master_calls map_fst_slave_calls AllClients_def)

lemma not_swapped_no_slaves:
  "capped l \<Longrightarrow> Clients (Slaves l) = [] \<Longrightarrow> \<not> swapped l"
  using capped_D(1) [of l] by (simp add: swapped_def AllClients_def)

lemma capped_Name [simp]: "capped (l\<lparr>VerticalLayout.Name := n\<rparr>) = capped l"
  by (simp add: capped_def)

lemma capped_example: "capped one_master_two_slaves"
  by (simp add: capped_def one_master_two_slaves_def)

lemmas eval_defs =
  Do_def AllClients_def slice_at_def go_rem_def go_round_def MoveResize_def no_effect_def

section \<open>The move lock of a client\<close>

lemma UnMaximize_client: "fst (snd (UnMaximize S)) = fst S"
  by (simp add: UnMaximize_def)

lemma UnFullscreen_client: "fst (snd (UnFullscreen S)) = fst S"
  by (simp add: UnFullscreen_def)

lemma UnMaximize_reqs: "\<exists>rs. snd (snd (UnMaximize S)) = snd S @ rs"
  by (simp add: UnMaximize_def)

lemma UnFullscreen_reqs: "\<exists>rs. snd (snd (UnFullscreen S)) = snd S @ rs"
  by (simp add: UnFullscreen_def)

lemma Update_reqs: "snd (Update getinfo S) = snd S"
  by (simp add: Update_def Let_def)

lemma MoveWindow_unlocked:
  assumes "\<not> Locked (fst S)"
  shows "\<exists>rs. snd (MoveWindow getinfo x y w h S) = snd S @ rs @
     [let D = Dimensions (Latest (fst S)); ext = Extents D;
          dx = (if AdjPos D then FrameExtents.Left ext else 0);
          dy = (if AdjPos D then FrameExtents.Top ext else 0);
          dw = (if AdjSize D then FrameExtents.Left ext + FrameExtents.Right ext else 0);
          dh = (if AdjSize D then FrameExtents.Top ext + FrameExtents.Bottom ext else 0)
      in if w > 0 \<and> h > 0
         then ewmh_MoveresizeWindow (Window (fst S)) (x + dx) (y + dy) (w - dw) (h - dh)
         else ewmh_MoveWindow (Window (fst S)) (x + dx) (y + dy)]"
proof -
  obtain r1 where r1: "snd (snd (UnMaximize S)) = snd S @ r1"
    using UnMaximize_reqs by blast
  obtain r2 where r2:
    "snd (snd (UnFullscreen (snd (UnMaximize S)))) = snd (snd (UnMaximize S)) @ r2"
    using UnFullscreen_reqs by blast
  have c: "fst (snd (UnFullscreen (snd (UnMaximize S)))) = fst S"
    by (simp add: UnFullscreen_client UnMaximize_client)
  show ?thesis
    apply (rule exI [where x = "r1 @ r2"])
    unfolding MoveWindow_def Let_def using assms
    by (simp only: if_False Update_reqs snd_conv c r2 r1 append_assoc)
qed

text \<open>
  C10.  A \<open>MoveWindow\<close> on a locked client sends no request to the window system and
  leaves every snapshot as it was, \<open>Latest\<close> included: the client comes back with nothing
  but \<open>Locked\<close> cleared.  After \<open>Lock\<close>, the first \<open>MoveWindow\<close> is therefore discarded, and
  the second one goes through: it extends the requests and ends with the move or
  move-resize request for the window.
\<close>

theorem MoveWindow_locked_discards_one_move:
  "MoveWindow getinfo x y w h (c\<lparr>Locked := True\<rparr>, rq) = (c\<lparr>Locked := False\<rparr>, rq)
   \<and> MoveWindow getinfo x y w h (Lock c, rq) = (UnLock c, rq)
   \<and> (\<exists>rs. snd (MoveWindow getinfo x' y' w' h' (MoveWindow getinfo x y w h (Lock c, rq)))
         = rq @ rs @
           [let D = Dimensions (Latest c); ext = Extents D;
                dx = (if AdjPos D then FrameExtents.Left ext else 0);
                dy = (if AdjPos D then FrameExtents.Top ext else 0);
                dw = (if AdjSize D then FrameExtents.Left ext + FrameExtents.Right ext else 0);
                dh = (if AdjSize D then FrameExtents.Top ext + FrameExtents.Bottom ext else 0)
            in if w' > 0 \<and> h' > 0
               then ewmh_MoveresizeWindow (Window c) (x' + dx) (y' + dy) (w' - dw) (h' - dh)
               else ewmh_MoveWindow (Window c) (x' + dx) (y' + dy)])"
proof -
  have 1: "MoveWindow getinfo x y w h (c\<lparr>Locked := True\<rparr>, rq) = (c\<lparr>Locked := False\<rparr>, rq)"
    by (simp add: MoveWindow_def UnLock_def)
  have 2: "MoveWindow getinfo x y w h (Lock c, rq) = (UnLock c, rq)"
    by (simp add: MoveWindow_def UnLock_def Lock_def)
  have eqs: "Latest (UnLock c) = Latest c" "Window (UnLock c) = Window c"
    by (simp_all add: UnLock_def)
  have "\<not> Locked (fst (UnLock c, rq))"
    by (simp add: UnLock_def)
  from MoveWindow_unlocked [OF this, of getinfo x' y' w' h']
  have 3: "\<exists>rs. snd (MoveWindow getinfo x' y' w' h' (UnLock c, rq))
         = rq @ rs @
           [let D = Dimensions (Latest c); ext = Extents D;
                dx = (if AdjPos D then FrameExtents.Left ext else 0);
                dy = (if AdjPos D then FrameExtents.Top ext else 0);
                dw = (if AdjSize D then FrameExtents.Left ext + FrameExtents.Right ext else 0);
                dh = (if AdjSize D then FrameExtents.Top ext + FrameExtents.Bottom ext else 0)
            in if w' > 0 \<and> h' > 0
               then ewmh_MoveresizeWindow (Window c) (x' + dx) (y' + dy) (w' - dw) (h' - dh)
               else ewmh_MoveWindow (Window c) (x' + dx) (y' + dy)]"
    by (simp only: fst_conv snd_conv eqs)
  show ?thesis
    using 1 2 3 by (simp only: simp_thms)
qed

section \<open>The placement pass on the scenario of the specification\<close>

text \<open>
  C5.  One master and three slaves in the left layout, \<open>MasterSlave = [0.6, 0.4]\<close>, even
  slave proportions, a desktop of 1920 by 1080 at the origin and a gap of 5: the pass
  issues four calls and does not panic.  The master is placed at x = 5 with width 1142,
  so it spans x from 5 to 1147; the three slaves share the column at x = 1152 with
  height 353 each, which is \<open>(1080 - 4 * 5) / 3\<close> rounded.  (In float64 the products
  \<open>1920 * 0.6\<close> and \<open>1060 * (1 / 3)\<close> round to the same integers 1152 and 353.)
\<close>

theorem Do_one_master_three_slaves:
  "Do mr (0, 0, 1920, 1080) 5
     \<lparr>VerticalLayout.Name = ''vertical-left'', DeskNum = n,
      Proportions = \<lparr>MasterSlave = [3 / 5, 2 / 5], MasterMaster = [1],
                     SlaveSlave = [1 / 3, 1 / 3, 1 / 3]\<rparr>,
      Masters = \<lparr>Clients = [m], Allowed = 1\<rparr>,
      Slaves = \<lparr>Clients = [s1, s2, s3], Allowed = 3\<rparr>\<rparr> (\<sigma>, [])
   = ((mr s3 1152 721 763 353 (mr s2 1152 363 763 353 (mr s1 1152 5 763 353
         (mr m 5 5 1142 1070 \<sigma>))),
       [(m, 5, 5, 1142, 1070), (s1, 1152, 5, 763, 353), (s2, 1152, 363, 763, 353),
        (s3, 1152, 721, 763, 353)]), None)
   \<and> (5 :: int) + 1142 = 1147
   \<and> \<bar>rat_of_int 353 - (1080 - 4 * 5) / 3\<bar> < 1"
  by (simp add: Do_def AllClients_def slice_at_def go_rem_def go_round_def MoveResize_def)

section \<open>A single partition\<close>

text \<open>
  C2.  When exactly one of the two partitions is empty, every client of the other one is
  placed at \<open>dx + gap\<close> with its right edge at \<open>dx + dw - gap\<close>: it spans the desktop width
  minus the gaps, whatever \<open>MasterSlave\<close> says, and the pass issues one call per client
  without a panic.  A single master without slaves is the special case.  The layout is
  \<open>capped\<close>: no partition holds more clients than its allowed count.
\<close>

theorem Do_single_partition_spans_width:
  assumes "capped l"
    and "(Clients (Masters l) = []) \<noteq> (Clients (Slaves l) = [])"
  shows "\<exists>\<sigma>' calls. Do mr (dx, dy, dw, dh) gap l (\<sigma>, []) = ((\<sigma>', calls), None)
           \<and> map fst calls = AllClients l
           \<and> (\<forall>r\<in>set calls. call_x r = dx + gap \<and> call_x r + call_w r = dx + dw - gap)"
proof -
  let ?M = "master_calls (dx, dy, dw, dh) gap l" and ?S = "slave_calls (dx, dy, dw, dh) gap l"
  have run: "Do mr (dx, dy, dw, dh) gap l (\<sigma>, []) = ((apply_calls mr (?M @ ?S) \<sigma>, ?M @ ?S), None)"
    using Do_stacks [OF assms(1), of mr dx dy dw dh gap "(\<sigma>, [])"] by simp
  have span: "call_x r = dx + gap \<and> call_x r + call_w r = dx + dw - gap" if "r \<in> set (?M @ ?S)" for r
  proof (cases "Clients (Masters l) = []")
    case True
    then have "r \<in> set ?S"
      using that by (simp add: master_calls_def)
    then have "call_x r = dx + gap \<and> call_w r = dw - gap - gap"
      using True by (auto simp: slave_calls_def slave_column_def dest: stack_member)
    then show ?thesis by simp
  next
    case False
    then have ss: "Clients (Slaves l) = []"
      using assms(2) by simp
    then have "r \<in> set ?M"
      using that by (simp add: slave_calls_def)
    then have "call_x r = dx + gap \<and> call_w r = dw - 2 * gap"
      using ss not_swapped_no_slaves [OF assms(1) ss]
      by (auto simp: master_calls_def master_column_def dest: stack_member)
    then show ?thesis by simp
  qed
  show ?thesis
    using run map_fst_calls [OF assms(1), of dx dy dw dh gap] span by blast
qed

theorem Do_single_partition_spans_width_witness:
  "capped single_client
   \<and> (Clients (Masters single_client) = []) \<noteq> (Clients (Slaves single_client) = [])
   \<and> (\<exists>\<sigma>' calls. Do no_effect (0, 0, 1920, 1080) 5 single_client ((), []) = ((\<sigma>', calls), None)
           \<and> map fst calls = AllClients single_client
           \<and> (\<forall>r\<in>set calls. call_x r = 0 + 5 \<and> call_x r + call_w r = 0 + 1920 - 5))
   \<and> Do no_effect (0, 0, 1920, 1080) 5 single_client ((), []) = (((), [(1, 5, 5, 1910, 1070)]), None)"
proof -
  have h1: "capped single_client"
    by (simp add: capped_def single_client_def)
  have h2: "(Clients (Masters single_client) = []) \<noteq> (Clients (Slaves single_client) = [])"
    by (simp add: single_client_def)
  have ev: "Do no_effect (0, 0, 1920, 1080) 5 single_client ((), []) = (((), [(1, 5, 5, 1910, 1070)]), None)"
    by (simp add: Do_def single_client_def AllClients_def slice_at_def go_rem_def go_round_def
        MoveResize_def no_effect_def)
  show ?thesis
    using h1 h2 ev Do_single_partition_spans_width [OF h1 h2, of no_effect 0 0 1920 1080 5 "()"]
    by (intro conjI)
qed

section \<open>The mirrored layout\<close>

text \<open>
  C4.  The same manager state placed by the left and by the right layout.  When there are
  more clients than allowed masters and both partitions are non-empty, the left layout puts
  the masters into the left column and the slaves into the right one, and the right layout
  exchanges the sides; both use the same split \<open>split_width\<close> of the desktop width, the same
  row heights and the same offsets.  In every other case the two layouts place the clients
  identically.  The name of the layout enters \<open>Do\<close> through the columns only.
\<close>

theorem Do_mirror_swaps_columns:
  assumes "capped l"
  shows "(int (length (AllClients l)) > Allowed (Masters l)
          \<and> Clients (Masters l) \<noteq> [] \<and> Clients (Slaves l) \<noteq> [] \<longrightarrow>
           snd (Do mr (dx, dy, dw, dh) gap (l\<lparr>VerticalLayout.Name := ''vertical-left''\<rparr>) (\<sigma>, [])) = None
           \<and> snd (fst (Do mr (dx, dy, dw, dh) gap (l\<lparr>VerticalLayout.Name := ''vertical-left''\<rparr>) (\<sigma>, [])))
             = stack (dx + gap) (split_width dw l - 2 * gap) gap (dy + gap)
                 (heights dh gap (int (length (Clients (Masters l)))) (MasterMaster (Proportions l)))
                 (Clients (Masters l))
               @ stack (dx + split_width dw l) (dw - split_width dw l - gap) gap (dy + gap)
                 (heights dh gap (int (length (Clients (Slaves l)))) (SlaveSlave (Proportions l)))
                 (Clients (Slaves l))
           \<and> snd (Do mr (dx, dy, dw, dh) gap (l\<lparr>VerticalLayout.Name := ''vertical-right''\<rparr>) (\<sigma>, [])) = None
           \<and> snd (fst (Do mr (dx, dy, dw, dh) gap (l\<lparr>VerticalLayout.Name := ''vertical-right''\<rparr>) (\<sigma>, [])))
             = stack (dx + split_width dw l + gap) (dw - split_width dw l - 2 * gap) gap (dy + gap)
                 (heights dh gap (int (length (Clients (Masters l)))) (MasterMaster (Proportions l)))
                 (Clients (Masters l))
               @ stack (dx + gap) (split_width dw l - gap) gap (dy + gap)
                 (heights dh gap (int (length (Clients (Slaves l)))) (SlaveSlave (Proportions l)))
                 (Clients (Slaves l)))
         \<and> (int (length (AllClients l)) \<le> Allowed (Masters l)
            \<or> Clients (Masters l) = [] \<or> Clients (Slaves l) = [] \<longrightarrow>
           Do mr (dx, dy, dw, dh) gap (l\<lparr>VerticalLayout.Name := ''vertical-right''\<rparr>) (\<sigma>, [])
           = Do mr (dx, dy, dw, dh) gap (l\<lparr>VerticalLayout.Name := ''vertical-left''\<rparr>) (\<sigma>, []))"
proof -
  let ?L = "l\<lparr>VerticalLayout.Name := ''vertical-left''\<rparr>"
  let ?R = "l\<lparr>VerticalLayout.Name := ''vertical-right''\<rparr>"
  have L: "Do mr (dx, dy, dw, dh) gap ?L (\<sigma>, [])
      = ((apply_calls mr (master_calls (dx, dy, dw, dh) gap ?L @ slave_calls (dx, dy, dw, dh) gap ?L) \<sigma>,
          master_calls (dx, dy, dw, dh) gap ?L @ slave_calls (dx, dy, dw, dh) gap ?L), None)"
    using Do_stacks [of ?L mr dx dy dw dh gap "(\<sigma>, [])"] assms by simp
  have R: "Do mr (dx, dy, dw, dh) gap ?R (\<sigma>, [])
      = ((apply_calls mr (master_calls (dx, dy, dw, dh) gap ?R @ slave_calls (dx, dy, dw, dh) gap ?R) \<sigma>,
          master_calls (dx, dy, dw, dh) gap ?R @ slave_calls (dx, dy, dw, dh) gap ?R), None)"
    using Do_stacks [of ?R mr dx dy dw dh gap "(\<sigma>, [])"] assms by simp
  have swap: "int (length (AllClients l)) > Allowed (Masters l)
          \<and> Clients (Masters l) \<noteq> [] \<and> Clients (Slaves l) \<noteq> [] \<longrightarrow>
           master_calls (dx, dy, dw, dh) gap ?L @ slave_calls (dx, dy, dw, dh) gap ?L
             = stack (dx + gap) (split_width dw l - 2 * gap) gap (dy + gap)
                 (heights dh gap (int (length (Clients (Masters l)))) (MasterMaster (Proportions l)))
                 (Clients (Masters l))
               @ stack (dx + split_width dw l) (dw - split_width dw l - gap) gap (dy + gap)
                 (heights dh gap (int (length (Clients (Slaves l)))) (SlaveSlave (Proportions l)))
                 (Clients (Slaves l))
           \<and> master_calls (dx, dy, dw, dh) gap ?R @ slave_calls (dx, dy, dw, dh) gap ?R
             = stack (dx + split_width dw l + gap) (dw - split_width dw l - 2 * gap) gap (dy + gap)
                 (heights dh gap (int (length (Clients (Masters l)))) (MasterMaster (Proportions l)))
                 (Clients (Masters l))
               @ stack (dx + gap) (split_width dw l - gap) gap (dy + gap)
                 (heights dh gap (int (length (Clients (Slaves l)))) (SlaveSlave (Proportions l)))
                 (Clients (Slaves l))"
    by (simp add: master_calls_def slave_calls_def master_column_def slave_column_def
        swapped_def split_width_def AllClients_def)
  have same: "int (length (AllClients l)) \<le> Allowed (Masters l)
            \<or> Clients (Masters l) = [] \<or> Clients (Slaves l) = [] \<longrightarrow>
           master_calls (dx, dy, dw, dh) gap ?R = master_calls (dx, dy, dw, dh) gap ?L
           \<and> slave_calls (dx, dy, dw, dh) gap ?R = slave_calls (dx, dy, dw, dh) gap ?L"
    using capped_D(1) [OF assms]
    by (auto simp add: master_calls_def slave_calls_def master_column_def slave_column_def
        swapped_def split_width_def AllClients_def)
  show ?thesis
    unfolding L R using swap same by simp
qed

theorem Do_mirror_swaps_columns_witness:
  "capped one_master_two_slaves
   \<and> int (length (AllClients one_master_two_slaves)) > Allowed (Masters one_master_two_slaves)
   \<and> Clients (Masters one_master_two_slaves) \<noteq> []
   \<and> Clients (Slaves one_master_two_slaves) \<noteq> []
   \<and> snd (fst (Do no_effect (0, 0, 1920, 1080) 5
        (one_master_two_slaves\<lparr>VerticalLayout.Name := ''vertical-left''\<rparr>) ((), [])))
      = [(1, 5, 5, 950, 1070), (2, 960, 5, 955, 533), (3, 960, 543, 955, 533)]
   \<and> snd (fst (Do no_effect (0, 0, 1920, 1080) 5
        (one_master_two_slaves\<lparr>VerticalLayout.Name := ''vertical-right''\<rparr>) ((), [])))
      = [(1, 965, 5, 950, 1070), (2, 5, 5, 955, 533), (3, 5, 543, 955, 533)]"
proof -
  have h: "capped one_master_two_slaves"
    by (rule capped_example)
  have c: "int (length (AllClients one_master_two_slaves)) > Allowed (Masters one_master_two_slaves)
     \<and> Clients (Masters one_master_two_slaves) \<noteq> []
     \<and> Clients (Slaves one_master_two_slaves) \<noteq> []"
    by (simp add: one_master_two_slaves_def AllClients_def)
  have sw: "split_width 1920 one_master_two_slaves = 960"
    by (simp add: split_width_def one_master_two_slaves_def go_round_def)
  have hm: "heights 1080 5 1 (MasterMaster (Proportions one_master_two_slaves)) = [1070]"
    by (simp add: heights_def one_master_two_slaves_def go_round_def)
  have hs: "heights 1080 5 2 (SlaveSlave (Proportions one_master_two_slaves)) = [533, 533]"
    by (simp add: heights_def one_master_two_slaves_def go_round_def)
  have cl: "Clients (Masters one_master_two_slaves) = [1]"
    "Clients (Slaves one_master_two_slaves) = [2, 3]"
    by (simp_all add: one_master_two_slaves_def)
  show ?thesis
    using h c Do_mirror_swaps_columns [OF h, of no_effect 0 0 1920 1080 5 "()"]
    by (simp add: sw hm hs cl)
qed

section \<open>Rounding within a row\<close>

lemma sum_list_take_nth:
  fixes hs :: "'a :: comm_monoid_add list"
  assumes "i \<le> length hs"
  shows "sum_list (take i hs) = (\<Sum>j<i. hs ! j)"
proof -
  have "sum_list (take i hs) = (\<Sum>j<length (take i hs). take i hs ! j)"
    by (simp only: sum_list_sum_nth atLeast0LessThan)
  also have "\<dots> = (\<Sum>j<i. hs ! j)"
    using assms by (intro sum.cong) simp_all
  finally show ?thesis .
qed

lemma stack_row_rounded:
  assumes "length cs \<le> length ps"
  shows "row_rounded dy dh gap ps
           (stack x w gap (dy + gap) (heights dh gap (int (length cs)) ps) cs)"
proof -
  let ?n = "length cs"
  let ?H = "heights dh gap (int ?n) ps"
  let ?col = "stack x w gap (dy + gap) ?H cs"
  let ?A = "rat_of_int (dh - (int ?n + 1) * gap)"
  have len: "length ?col = ?n"
    using assms by (simp add: length_stack)
  have h: "call_h (?col ! i) = ?H ! i" if "i < ?n" for i
    using that assms by (simp add: call_stack_nth)
  have Hi: "?H ! i = go_round (?A * ps ! i)" if "i < ?n" for i
    using that assms by (simp add: heights_nth)
  have y: "call_y (?col ! i) = dy + gap + (\<Sum>j<i. call_h (?col ! j) + gap)" if "i < ?n" for i
  proof -
    have "call_y (?col ! i) = dy + gap + sum_list (take i ?H) + int i * gap"
      using that assms by (simp add: call_stack_nth)
    also have "sum_list (take i ?H) = (\<Sum>j<i. ?H ! j)"
      using that assms by (simp add: sum_list_take_nth)
    also have "(\<Sum>j<i. ?H ! j) = (\<Sum>j<i. call_h (?col ! j))"
      using that by (intro sum.cong) (simp_all add: h)
    finally show ?thesis
      by (simp add: sum.distrib)
  qed
  have drift: "rat_of_int (call_y (last ?col) + call_h (last ?col) - (dy + dh - gap))
           = (\<Sum>i<?n. rat_of_int (call_h (?col ! i)) - ?A * ps ! i)"
    if ne: "?col \<noteq> []" and lp: "length ps = ?n" and sum: "sum_list ps = 1"
  proof -
    have n: "0 < ?n"
      using ne len by auto
    then have last: "last ?col = ?col ! (?n - 1)"
      using ne len by (simp add: last_conv_nth)
    have j: "?n - 1 < length ?H" "?n - 1 < length cs"
      using n lp by simp_all
    have "call_y (last ?col) + call_h (last ?col)
          = dy + gap + sum_list (take (Suc (?n - 1)) ?H) + int (?n - 1) * gap"
      unfolding last by (rule stack_bottom [OF j])
    also have "take (Suc (?n - 1)) ?H = ?H"
      using n lp by simp
    finally have "call_y (last ?col) + call_h (last ?col) - (dy + dh - gap)
          = sum_list ?H - (dh - (int ?n + 1) * gap)"
      using n by (simp add: algebra_simps of_nat_diff)
    then have "rat_of_int (call_y (last ?col) + call_h (last ?col) - (dy + dh - gap))
          = rat_of_int (sum_list ?H - (dh - (int ?n + 1) * gap))"
      by (simp only:)
    also have "\<dots> = rat_of_int (sum_list ?H) - ?A * 1"
      by simp
    also have "rat_of_int (sum_list ?H) = (\<Sum>i<?n. rat_of_int (?H ! i))"
      using lp by (simp add: sum_list_sum_nth atLeast0LessThan)
    also have "(1 :: rat) = (\<Sum>i<?n. ps ! i)"
      using lp sum by (simp add: sum_list_sum_nth atLeast0LessThan)
    also have "(\<Sum>i<?n. rat_of_int (?H ! i)) - ?A * (\<Sum>i<?n. ps ! i)
               = (\<Sum>i<?n. rat_of_int (?H ! i) - ?A * ps ! i)"
      by (simp add: sum_subtractf sum_distrib_left)
    also have "\<dots> = (\<Sum>i<?n. rat_of_int (call_h (?col ! i)) - ?A * ps ! i)"
      by (intro sum.cong) (simp_all add: h)
    finally show ?thesis .
  qed
  show ?thesis
    unfolding row_rounded_def Let_def len
    using h Hi y drift go_round_near len by auto
qed

text \<open>
  C8, as stated, fails: the last client of a row does not take up the residual of the
  rounding.  With one master and three slaves of proportion one third each on a desktop of
  1920 by 1080 and a gap of 5, every slave, the last included, is 353 high, the rounded
  third of 1060; a last slave taking up the residual would be 354 high, and the row ends
  at y = 1074, one pixel above the inset.  With two slaves of proportion one half each,
  both are 533 high, rounded up from 532.5; a last slave taking up the residual would be
  532 high, and the row ends at y = 1076, one pixel below the inset.
\<close>

theorem Do_last_height_not_adjusted_counterexample:
  "Do no_effect (0, 0, 1920, 1080) 5 one_master_three_slaves ((), [])
     = (((), [(1, 5, 5, 1142, 1070), (2, 1152, 5, 763, 353), (3, 1152, 363, 763, 353),
              (4, 1152, 721, 763, 353)]), None)
   \<and> \<not> last_absorbs_drift 1080 5
         [(2, 1152, 5, 763, 353), (3, 1152, 363, 763, 353), (4, 1152, 721, 763, 353)]
   \<and> call_h (4, 1152, 721, 763, 353) = go_round (rat_of_int (1080 - 4 * 5) * (1 / 3))
   \<and> 1080 - 4 * 5 - (353 + 353) = (354 :: int)
   \<and> call_y (4, 1152, 721, 763, 353) + call_h (4, 1152, 721, 763, 353) = 1074
   \<and> Do no_effect (0, 0, 1920, 1080) 5 one_master_two_slaves ((), [])
     = (((), [(1, 5, 5, 950, 1070), (2, 960, 5, 955, 533), (3, 960, 543, 955, 533)]), None)
   \<and> \<not> last_absorbs_drift 1080 5 [(2, 960, 5, 955, 533), (3, 960, 543, 955, 533)]
   \<and> call_h (3, 960, 543, 955, 533) = go_round (rat_of_int (1080 - 3 * 5) * (1 / 2))
   \<and> 1080 - 3 * 5 - 533 = (532 :: int)
   \<and> call_y (3, 960, 543, 955, 533) + call_h (3, 960, 543, 955, 533) = 1076"
  by (simp add: eval_defs one_master_two_slaves_def one_master_three_slaves_def
      last_absorbs_drift_def call_y_def call_h_def)

text \<open>
  C8, amended.  In a layout whose partitions hold at most their allowed counts, every
  height is rounded to the nearest integer from its own proportion and lies within half a
  pixel of its exact share; no height, that of the last client included, is adjusted for
  the rounding of another.  The offsets add up the rounded heights and gaps, so the
  residuals are neither distributed over the row nor taken up by its last client: for a
  row whose proportions sum to one, the bottom edge of the last client misses the bottom
  inset by exactly the sum of the rounding residuals of the row (\<open>row_rounded\<close>), for
  the masters and for the slaves.
\<close>

theorem Do_rounding_drift:
  assumes "capped l"
  shows "\<exists>\<sigma>' calls.
           Do mr (dx, dy, dw, dh) gap l (\<sigma>, []) = ((\<sigma>', calls), None)
           \<and> row_rounded dy dh gap (MasterMaster (Proportions l))
                (take (length (Clients (Masters l))) calls)
           \<and> row_rounded dy dh gap (SlaveSlave (Proportions l))
                (drop (length (Clients (Masters l))) calls)"
proof -
  let ?M = "master_calls (dx, dy, dw, dh) gap l" and ?S = "slave_calls (dx, dy, dw, dh) gap l"
  have run: "Do mr (dx, dy, dw, dh) gap l (\<sigma>, []) = ((apply_calls mr (?M @ ?S) \<sigma>, ?M @ ?S), None)"
    using Do_stacks [OF assms, of mr dx dy dw dh gap "(\<sigma>, [])"] by simp
  have lenM: "length ?M = length (Clients (Masters l))"
    using capped_D(3) [OF assms] by (simp add: master_calls_def length_stack)
  have M: "row_rounded dy dh gap (MasterMaster (Proportions l)) ?M"
    unfolding master_calls_def prod.case by (rule stack_row_rounded) (rule capped_D(3) [OF assms])
  have S: "row_rounded dy dh gap (SlaveSlave (Proportions l)) ?S"
    unfolding slave_calls_def prod.case by (rule stack_row_rounded) (rule capped_D(4) [OF assms])
  show ?thesis
    using run M S lenM by simp
qed

theorem Do_rounding_drift_witness:
  "capped one_master_two_slaves
   \<and> (\<exists>\<sigma>' calls.
         Do no_effect (0, 0, 1920, 1080) 5 one_master_two_slaves ((), []) = ((\<sigma>', calls), None)
         \<and> row_rounded 0 1080 5 (MasterMaster (Proportions one_master_two_slaves))
              (take (length (Clients (Masters one_master_two_slaves))) calls)
         \<and> row_rounded 0 1080 5 (SlaveSlave (Proportions one_master_two_slaves))
              (drop (length (Clients (Masters one_master_two_slaves))) calls))"
  using capped_example Do_rounding_drift [OF capped_example, of no_effect 0 0 1920 1080 5 "()"]
  by (intro conjI)

section \<open>Tiling the desktop\<close>

lemma map_call_h_stack: "map call_h (stack x w gap y hs cs) = take (length cs) (take (length (stack x w gap y hs cs)) hs)"
  by (induction x w gap y hs cs rule: stack.induct) (simp_all add: call_h_def)

lemma stack_in_set:
  assumes "r \<in> set (stack x w gap y hs cs)"
  obtains k where "k < length hs" "k < length cs" "r = stack x w gap y hs cs ! k"
  using assms by (auto simp: in_set_conv_nth length_stack)

text \<open>A column whose proportions form a proper row: every rectangle has a non-negative
  height, starts below the top inset and ends within the tolerance of the bottom inset.\<close>

lemma column_vertical:
  assumes row: "proper_row ps cs" and gap: "0 \<le> gap"
    and room: "(int (length cs) + 1) * gap \<le> dh"
    and r: "r \<in> set (stack x w gap (dy + gap) (heights dh gap (int (length cs)) ps) cs)"
  shows "0 \<le> call_h r \<and> dy + gap \<le> call_y r
         \<and> 2 * (call_y r + call_h r) \<le> 2 * (dy + dh - gap) + int (length cs)"
proof -
  let ?H = "heights dh gap (int (length cs)) ps"
  have lp: "length ps = length cs" and nonneg: "\<forall>p\<in>set ps. 0 \<le> p"
    using row by (simp_all add: proper_row_def)
  from r obtain k where k: "k < length ?H" "k < length cs"
    and rk: "r = stack x w gap (dy + gap) ?H cs ! k"
    by (rule stack_in_set)
  have "cs \<noteq> []"
    using k by auto
  then have sum: "sum_list ps = 1"
    using row by (simp add: proper_row_def)
  have H: "\<forall>h\<in>set ?H. 0 \<le> h"
    using nonneg room by (rule heights_nonneg)
  have 1: "0 \<le> call_h r"
    using H k by (simp add: rk call_stack_nth)
  have 2: "dy + gap \<le> call_y r"
    unfolding rk using H gap k by (rule stack_top)
  have kp: "k < length ps"
    using k lp by simp
  have "2 * (call_y (stack x w gap (dy + gap) (heights dh gap (int (length ps)) ps) cs ! k)
             + call_h (stack x w gap (dy + gap) (heights dh gap (int (length ps)) ps) cs ! k))
        \<le> 2 * (dy + dh - gap) + int (length ps)"
    using nonneg _ gap sum kp k(2) by (rule column_bottom_bound) (simp add: lp room)
  then have 3: "2 * (call_y r + call_h r) \<le> 2 * (dy + dh - gap) + int (length cs)"
    by (simp add: rk lp)
  show ?thesis
    using 1 2 3 by simp
qed

lemma column_fills_height:
  assumes "proper_row ps cs"
  shows "fills_height dh gap (stack x w gap y (heights dh gap (int (length cs)) ps) cs)"
proof (cases "cs = []")
  case True
  then show ?thesis by (simp add: fills_height_def)
next
  case False
  have lp: "length ps = length cs" and sum: "sum_list ps = 1"
    using assms False by (simp_all add: proper_row_def)
  have "map call_h (stack x w gap y (heights dh gap (int (length cs)) ps) cs)
        = heights dh gap (int (length ps)) ps"
    by (simp add: map_call_h_stack length_stack lp)
  moreover have "length (stack x w gap y (heights dh gap (int (length cs)) ps) cs) = length ps"
    by (simp add: length_stack lp)
  ultimately show ?thesis
    using column_total [OF sum, of dh gap] by (simp add: fills_height_def)
qed

lemma column_no_overlap:
  assumes row: "proper_row ps cs" and gap: "0 \<le> gap"
    and room: "(int (length cs) + 1) * gap \<le> dh"
    and ij: "i < j" "j < length cs"
  shows "\<not> overlap (stack x w gap y (heights dh gap (int (length cs)) ps) cs ! i)
                   (stack x w gap y (heights dh gap (int (length cs)) ps) cs ! j)"
proof -
  have lp: "length ps = length cs" and nonneg: "\<forall>p\<in>set ps. 0 \<le> p"
    using row by (simp_all add: proper_row_def)
  have H: "\<forall>h\<in>set (heights dh gap (int (length cs)) ps). 0 \<le> h"
    using nonneg room by (rule heights_nonneg)
  show ?thesis
    using H gap ij(1) _ ij(2) by (rule stack_no_overlap) (simp add: lp ij)
qed

lemma master_column_bounds:
  assumes "capped l" "0 \<le> gap" "2 * gap \<le> dw"
    and "Clients (Masters l) = [] \<or> Clients (Slaves l) = []
         \<or> (2 * gap \<le> split_width dw l \<and> split_width dw l \<le> dw - 2 * gap)"
    and "Clients (Masters l) \<noteq> []"
  shows "dx + gap \<le> fst (master_column dx dw gap l)
         \<and> fst (master_column dx dw gap l) + snd (master_column dx dw gap l) \<le> dx + dw - gap
         \<and> 0 \<le> snd (master_column dx dw gap l)"
proof (cases "Clients (Slaves l) = []")
  case True
  then show ?thesis
    using assms not_swapped_no_slaves [OF assms(1) True] by (simp add: master_column_def)
next
  case False
  then show ?thesis
    using assms by (simp add: master_column_def)
qed

lemma slave_column_bounds:
  assumes "0 \<le> gap" "2 * gap \<le> dw"
    and "Clients (Masters l) = [] \<or> Clients (Slaves l) = []
         \<or> (2 * gap \<le> split_width dw l \<and> split_width dw l \<le> dw - 2 * gap)"
    and "Clients (Slaves l) \<noteq> []"
  shows "dx + gap \<le> fst (slave_column dx dw gap l)
         \<and> fst (slave_column dx dw gap l) + snd (slave_column dx dw gap l) \<le> dx + dw - gap
         \<and> 0 \<le> snd (slave_column dx dw gap l)"
  using assms by (auto simp add: slave_column_def)

lemma columns_disjoint:
  assumes "0 \<le> gap" "Clients (Masters l) \<noteq> []" "Clients (Slaves l) \<noteq> []"
  shows "fst (master_column dx dw gap l) + snd (master_column dx dw gap l)
           \<le> fst (slave_column dx dw gap l)
         \<or> fst (slave_column dx dw gap l) + snd (slave_column dx dw gap l)
           \<le> fst (master_column dx dw gap l)"
  using assms by (simp add: master_column_def slave_column_def)

lemma columns_fill:
  assumes "capped l"
  shows "Clients (Masters l) \<noteq> [] \<and> Clients (Slaves l) \<noteq> [] \<longrightarrow>
           snd (master_column dx dw gap l) + snd (slave_column dx dw gap l) + 3 * gap = dw"
    and "Clients (Slaves l) = [] \<longrightarrow> snd (master_column dx dw gap l) + 2 * gap = dw"
    and "Clients (Masters l) = [] \<longrightarrow> snd (slave_column dx dw gap l) + 2 * gap = dw"
  by (simp_all add: master_column_def slave_column_def)

lemma overlap_columns:
  assumes "call_x a + call_w a \<le> call_x b \<or> call_x b + call_w b \<le> call_x a"
  shows "\<not> overlap a b"
  using assms by (auto simp: overlap_def)

text \<open>
  C1, as stated, fails: with one master and two slaves of proportion one half each on a
  desktop of 1920 by 1080 and a gap of 5, both slave heights round up from 532.5 to 533, and
  the second slave ends at y = 1076, one pixel below the inset desktop.
\<close>

theorem Do_inside_inset_counterexample:
  "int (length (AllClients one_master_two_slaves))
     \<le> Allowed (Masters one_master_two_slaves) + Allowed (Slaves one_master_two_slaves)
   \<and> Do no_effect (0, 0, 1920, 1080) 5 one_master_two_slaves ((), [])
     = (((), [(1, 5, 5, 950, 1070), (2, 960, 5, 955, 533), (3, 960, 543, 955, 533)]), None)
   \<and> \<not> inset_within (0, 0, 1920, 1080) 5 0 (3, 960, 543, 955, 533)"
  by (simp add: eval_defs one_master_two_slaves_def inset_within_def call_x_def call_y_def
      call_w_def call_h_def)

text \<open>
  C1, amended.  For a capped layout with proper rows, a non-negative gap that the desktop
  accommodates, and columns at least two gaps wide, a pass issues one call per client and
  does not panic; the rectangles are pairwise disjoint; each lies inside the desktop inset
  by the gap on the left, on the right and at the top, and its bottom edge exceeds the
  inset by at most half a pixel per client of its row; the widths and gaps add up to the
  desktop width, and the heights and gaps of a row to the desktop height up to the same
  tolerance.
\<close>

theorem Do_tiles_within_rounding:
  assumes cap: "capped l"
    and rowM: "proper_row (MasterMaster (Proportions l)) (Clients (Masters l))"
    and rowS: "proper_row (SlaveSlave (Proportions l)) (Clients (Slaves l))"
    and gap: "0 \<le> gap" "2 * gap \<le> dw"
    and roomM: "(int (length (Clients (Masters l))) + 1) * gap \<le> dh"
    and roomS: "(int (length (Clients (Slaves l))) + 1) * gap \<le> dh"
    and split: "Clients (Masters l) = [] \<or> Clients (Slaves l) = []
                \<or> (2 * gap \<le> split_width dw l \<and> split_width dw l \<le> dw - 2 * gap)"
  shows "\<exists>\<sigma>' calls.
           Do mr (dx, dy, dw, dh) gap l (\<sigma>, []) = ((\<sigma>', calls), None)
           \<and> map fst calls = AllClients l
           \<and> (\<forall>i j. i < j \<and> j < length calls \<longrightarrow> \<not> overlap (calls ! i) (calls ! j))
           \<and> (\<forall>r\<in>set (take (length (Clients (Masters l))) calls).
                 inset_within (dx, dy, dw, dh) gap (int (length (Clients (Masters l)))) r
                 \<and> 0 \<le> call_w r \<and> 0 \<le> call_h r)
           \<and> (\<forall>r\<in>set (drop (length (Clients (Masters l))) calls).
                 inset_within (dx, dy, dw, dh) gap (int (length (Clients (Slaves l)))) r
                 \<and> 0 \<le> call_w r \<and> 0 \<le> call_h r)
           \<and> fills_width dw gap (take (length (Clients (Masters l))) calls)
                (drop (length (Clients (Masters l))) calls)
           \<and> fills_height dh gap (take (length (Clients (Masters l))) calls)
           \<and> fills_height dh gap (drop (length (Clients (Masters l))) calls)"
proof -
  let ?ms = "Clients (Masters l)" and ?ss = "Clients (Slaves l)"
  let ?mc = "master_column dx dw gap l" and ?sc = "slave_column dx dw gap l"
  let ?HM = "heights dh gap (int (length ?ms)) (MasterMaster (Proportions l))"
  let ?HS = "heights dh gap (int (length ?ss)) (SlaveSlave (Proportions l))"
  let ?M = "stack (fst ?mc) (snd ?mc) gap (dy + gap) ?HM ?ms"
  let ?S = "stack (fst ?sc) (snd ?sc) gap (dy + gap) ?HS ?ss"
  have M: "master_calls (dx, dy, dw, dh) gap l = ?M" and S: "slave_calls (dx, dy, dw, dh) gap l = ?S"
    by (simp_all add: master_calls_def slave_calls_def)
  have run: "Do mr (dx, dy, dw, dh) gap l (\<sigma>, []) = ((apply_calls mr (?M @ ?S) \<sigma>, ?M @ ?S), None)"
    using Do_stacks [OF cap, of mr dx dy dw dh gap "(\<sigma>, [])"] by (simp add: M S)
  have ids: "map fst (?M @ ?S) = AllClients l"
    using map_fst_calls [OF cap, of dx dy dw dh gap] by (simp add: M S)
  have lenM: "length ?M = length ?ms" and lenS: "length ?S = length ?ss"
    using rowM rowS by (simp_all add: length_stack proper_row_def)
  have takeM: "take (length ?ms) (?M @ ?S) = ?M" and dropM: "drop (length ?ms) (?M @ ?S) = ?S"
    using lenM by simp_all
  have Mne: "?ms \<noteq> []" if "r \<in> set ?M" for r
    using that by auto
  have Sne: "?ss \<noteq> []" if "r \<in> set ?S" for r
    using that by auto
  have inM: "inset_within (dx, dy, dw, dh) gap (int (length ?ms)) r \<and> 0 \<le> call_w r \<and> 0 \<le> call_h r"
    if r: "r \<in> set ?M" for r
    using column_vertical [OF rowM gap(1) roomM r] stack_member [OF r]
      master_column_bounds [OF cap gap split Mne [OF r], of dx]
    by (simp add: inset_within_def)
  have inS: "inset_within (dx, dy, dw, dh) gap (int (length ?ss)) r \<and> 0 \<le> call_w r \<and> 0 \<le> call_h r"
    if r: "r \<in> set ?S" for r
    using column_vertical [OF rowS gap(1) roomS r] stack_member [OF r]
      slave_column_bounds [OF gap split Sne [OF r], of dx]
    by (simp add: inset_within_def)
  have fw: "fills_width dw gap ?M ?S"
    unfolding fills_width_def
  proof (intro conjI ballI impI)
    fix a b assume a: "a \<in> set ?M" and b: "b \<in> set ?S"
    show "call_w a + call_w b + 3 * gap = dw"
      using columns_fill(1) [OF cap, of dx dw gap] Mne [OF a] Sne [OF b]
        stack_member [OF a] stack_member [OF b] by simp
  next
    fix a assume "?S = []" and a: "a \<in> set ?M"
    then have "?ss = []"
      using lenS by simp
    then show "call_w a + 2 * gap = dw"
      using columns_fill(2) [OF cap, of dx dw gap] stack_member [OF a] by simp
  next
    fix b assume "?M = []" and b: "b \<in> set ?S"
    then have "?ms = []"
      using lenM by simp
    then show "call_w b + 2 * gap = dw"
      using columns_fill(3) [OF cap, of dx dw gap] stack_member [OF b] by simp
  qed
  have fhM: "fills_height dh gap ?M" and fhS: "fills_height dh gap ?S"
    using rowM rowS by (simp_all add: column_fills_height)
  have disj: "\<not> overlap ((?M @ ?S) ! i) ((?M @ ?S) ! j)" if ij: "i < j" "j < length (?M @ ?S)" for i j
  proof -
    consider "j < length ?ms" | "length ?ms \<le> i" | "i < length ?ms" "length ?ms \<le> j"
      by linarith
    then show ?thesis
    proof cases
      case 1
      then show ?thesis
        using column_no_overlap [OF rowM gap(1) roomM ij(1) 1] ij by (simp add: nth_append lenM)
    next
      case 2
      have "i - length ?ms < j - length ?ms" "j - length ?ms < length ?ss"
        using 2 ij lenM lenS by simp_all
      from column_no_overlap [OF rowS gap(1) roomS this] show ?thesis
        using 2 ij by (simp add: nth_append lenM)
    next
      case 3
      have a: "(?M @ ?S) ! i \<in> set ?M"
        using 3 by (simp add: nth_append lenM)
      have b: "(?M @ ?S) ! j \<in> set ?S"
        using 3 ij by (simp add: nth_append lenM lenS)
      show ?thesis
        using columns_disjoint [OF gap(1) Mne [OF a] Sne [OF b], of dx dw]
          stack_member [OF a] stack_member [OF b]
        by (intro overlap_columns) simp
    qed
  qed
  show ?thesis
    apply (rule exI [where x = "apply_calls mr (?M @ ?S) \<sigma>"])
    apply (rule exI [where x = "?M @ ?S"])
    unfolding takeM dropM
    using run ids disj inM inS fw fhM fhS by blast
qed

theorem Do_tiles_within_rounding_witness:
  "capped one_master_two_slaves
   \<and> proper_row (MasterMaster (Proportions one_master_two_slaves))
        (Clients (Masters one_master_two_slaves))
   \<and> proper_row (SlaveSlave (Proportions one_master_two_slaves))
        (Clients (Slaves one_master_two_slaves))
   \<and> (0 :: int) \<le> 5 \<and> (2 :: int) * 5 \<le> 1920
   \<and> (int (length (Clients (Masters one_master_two_slaves))) + 1) * 5 \<le> 1080
   \<and> (int (length (Clients (Slaves one_master_two_slaves))) + 1) * 5 \<le> 1080
   \<and> 2 * 5 \<le> split_width 1920 one_master_two_slaves
   \<and> split_width 1920 one_master_two_slaves \<le> 1920 - 2 * 5
   \<and> (\<exists>\<sigma>' calls.
         Do no_effect (0, 0, 1920, 1080) 5 one_master_two_slaves ((), []) = ((\<sigma>', calls), None)
         \<and> map fst calls = AllClients one_master_two_slaves
         \<and> (\<forall>i j. i < j \<and> j < length calls \<longrightarrow> \<not> overlap (calls ! i) (calls ! j))
         \<and> (\<forall>r\<in>set (take (length (Clients (Masters one_master_two_slaves))) calls).
               inset_within (0, 0, 1920, 1080) 5
                 (int (length (Clients (Masters one_master_two_slaves)))) r
               \<and> 0 \<le> call_w r \<and> 0 \<le> call_h r)
         \<and> (\<forall>r\<in>set (drop (length (Clients (Masters one_master_two_slaves))) calls).
               inset_within (0, 0, 1920, 1080) 5
                 (int (length (Clients (Slaves one_master_two_slaves)))) r
               \<and> 0 \<le> call_w r \<and> 0 \<le> call_h r)
         \<and> fills_width 1920 5 (take (length (Clients (Masters one_master_two_slaves))) calls)
              (drop (length (Clients (Masters one_master_two_slaves))) calls)
         \<and> fills_height 1080 5 (take (length (Clients (Masters one_master_two_slaves))) calls)
         \<and> fills_height 1080 5 (drop (length (Clients (Masters one_master_two_slaves))) calls))"
proof -
  have h1: "capped one_master_two_slaves"
    by (rule capped_example)
  have h2: "proper_row (MasterMaster (Proportions one_master_two_slaves))
              (Clients (Masters one_master_two_slaves))"
    by (simp add: proper_row_def one_master_two_slaves_def)
  have h3: "proper_row (SlaveSlave (Proportions one_master_two_slaves))
              (Clients (Slaves one_master_two_slaves))"
    by (simp add: proper_row_def one_master_two_slaves_def)
  have h4: "(0 :: int) \<le> 5" "(2 :: int) * 5 \<le> 1920"
    by simp_all
  have h5: "(int (length (Clients (Masters one_master_two_slaves))) + 1) * 5 \<le> 1080"
    by (simp add: one_master_two_slaves_def)
  have h6: "(int (length (Clients (Slaves one_master_two_slaves))) + 1) * 5 \<le> 1080"
    by (simp add: one_master_two_slaves_def)
  have h7: "2 * 5 \<le> split_width 1920 one_master_two_slaves
            \<and> split_width 1920 one_master_two_slaves \<le> 1920 - 2 * 5"
    by (simp add: split_width_def one_master_two_slaves_def go_round_def)
  then have h8: "Clients (Masters one_master_two_slaves) = []
      \<or> Clients (Slaves one_master_two_slaves) = []
      \<or> (2 * 5 \<le> split_width 1920 one_master_two_slaves
          \<and> split_width 1920 one_master_two_slaves \<le> 1920 - 2 * 5)"
    by simp
  show ?thesis
    using h1 h2 h3 h4 h5 h6 h7
      Do_tiles_within_rounding [OF h1 h2 h3 h4 h5 h6 h8, of no_effect 0 0 "()"]
    by (intro conjI) simp_all
qed

section \<open>Repeating a pass\<close>

lemma place_loop_trace:
  "\<exists>T e. \<forall>\<sigma> tr. snd (fst (place_loop mr dy dh gap amax asize ps x w i y cs (\<sigma>, tr))) = tr @ T
             \<and> snd (place_loop mr dy dh gap amax asize ps x w i y cs (\<sigma>, tr)) = e"
proof (induction cs arbitrary: i y)
  case Nil
  show ?case by simp
next
  case (Cons c cs)
  show ?case
  proof (cases "slice_at ps (go_rem i asize)")
    case None
    then show ?thesis by simp
  next
    case (Some p)
    let ?y = "if go_rem i amax = 0 then dy + gap else y"
    let ?h = "go_round (rat_of_int (dh - (asize + 1) * gap) * p)"
    from Cons.IH [of "i + 1" "?y + ?h + gap"] obtain T e where
      IH: "\<And>\<sigma> tr. snd (fst (place_loop mr dy dh gap amax asize ps x w (i + 1) (?y + ?h + gap) cs (\<sigma>, tr))) = tr @ T
             \<and> snd (place_loop mr dy dh gap amax asize ps x w (i + 1) (?y + ?h + gap) cs (\<sigma>, tr)) = e"
      by blast
    show ?thesis
      apply (rule exI [where x = "(c, x, ?y, w, ?h) # T"])
      apply (rule exI [where x = e])
      using IH by (simp add: Some MoveResize_def Let_def)
  qed
qed

lemma Do_trace:
  "\<exists>T e. \<forall>\<sigma> tr. snd (fst (Do mr desk gap l (\<sigma>, tr))) = tr @ T \<and> snd (Do mr desk gap l (\<sigma>, tr)) = e"
proof -
  obtain dx dy dw dh where desk: "desk = (dx, dy, dw, dh)"
    by (cases desk) auto
  show ?thesis
  proof (cases "slice_at (MasterSlave (Proportions l)) 0")
    case None
    then show ?thesis
      by (simp add: Do_def desk)
  next
    case (Some ms0)
    define mmax where "mmax = Allowed (Masters l)"
    define smax where "smax = Allowed (Slaves l)"
    define msize where "msize = min (int (length (Clients (Masters l)))) mmax"
    define ssize where "ssize = min (int (length (Clients (Slaves l)))) smax"
    define mw where "mw = go_round (of_int dw * ms0)"
    define swap where
      "swap = (VerticalLayout.Name l = ''vertical-right'' \<and> int (length (AllClients l)) > mmax)"
    define xm where "xm = (if swap then dx + mw else dx) + gap"
    define wm where "wm = (if ssize = 0 then dw else if swap then dw - mw else mw) - 2 * gap"
    define xs where "xs = (if msize = 0 then dx + gap else if swap then dx + gap else dx + mw)"
    define ws where "ws = (if msize = 0 then dw - gap else if swap then mw else dw - mw) - gap"
    define Mloop where
      "Mloop = place_loop mr dy dh gap mmax msize (MasterMaster (Proportions l)) xm wm 0 0
              (Clients (Masters l))"
    define Sloop where
      "Sloop = place_loop mr dy dh gap smax ssize (SlaveSlave (Proportions l)) xs ws 0 0
              (Clients (Slaves l))"
    have unfold: "Do mr desk gap l W =
       (let R = (if msize > 0 then Mloop W else (W, None))
        in case snd R of Some e \<Rightarrow> R | None \<Rightarrow> if ssize > 0 then Sloop (fst R) else R)" for W
      unfolding Mloop_def Sloop_def xm_def wm_def xs_def ws_def swap_def mw_def msize_def ssize_def
        mmax_def smax_def
      by (simp add: Do_def desk Some Let_def)
    obtain TM eM where M: "\<And>\<sigma> tr. snd (fst (Mloop (\<sigma>, tr))) = tr @ TM \<and> snd (Mloop (\<sigma>, tr)) = eM"
      unfolding Mloop_def
      using place_loop_trace [of mr dy dh gap mmax msize "MasterMaster (Proportions l)" xm wm 0 0
          "Clients (Masters l)"]
      by blast
    obtain TS eS where S: "\<And>\<sigma> tr. snd (fst (Sloop (\<sigma>, tr))) = tr @ TS \<and> snd (Sloop (\<sigma>, tr)) = eS"
      unfolding Sloop_def
      using place_loop_trace [of mr dy dh gap smax ssize "SlaveSlave (Proportions l)" xs ws 0 0
          "Clients (Slaves l)"]
      by blast
    have S': "snd (fst (Sloop W)) = snd W @ TS \<and> snd (Sloop W) = eS" for W
      using S [of "fst W" "snd W"] by simp
    show ?thesis
    proof (cases "msize > 0")
      case True
      show ?thesis
      proof (cases eM)
        case None
        show ?thesis
          apply (rule exI [where x = "if ssize > 0 then TM @ TS else TM"])
          apply (rule exI [where x = "if ssize > 0 then eS else None"])
          using True None M S' by (simp add: unfold Let_def)
      next
        case (Some e)
        show ?thesis
          apply (rule exI [where x = TM])
          apply (rule exI [where x = "Some e"])
          using True Some M by (simp add: unfold Let_def)
      qed
    next
      case False
      show ?thesis
        apply (rule exI [where x = "if ssize > 0 then TS else []"])
        apply (rule exI [where x = "if ssize > 0 then eS else None"])
        using False S' by (simp add: unfold Let_def)
    qed
  qed
qed

lemma Do_trace_independent:
  "snd (fst (Do mr desk gap l (\<sigma>', []))) = snd (fst (Do mr desk gap l (\<sigma>, [])))
   \<and> snd (Do mr desk gap l (\<sigma>', [])) = snd (Do mr desk gap l (\<sigma>, []))"
  using Do_trace [of mr desk gap l] by (metis append_Nil)

text \<open>
  C7.  \<open>Do\<close> reads the layout, the desktop and the gap and writes none of them; the calls it
  makes do not depend on the state of the client objects, whatever \<open>MoveResize\<close> does to
  them.  Any number of consecutive passes therefore issue the same calls.
\<close>

theorem Do_idempotent:
  "Do_passes mr desk gap l n \<sigma>
   = replicate n (snd (fst (Do mr desk gap l (\<sigma>, []))), snd (Do mr desk gap l (\<sigma>, [])))"
proof (induction n arbitrary: \<sigma>)
  case 0
  show ?case by simp
next
  case (Suc n)
  show ?case
    using Do_trace_independent [of mr desk gap l "fst (fst (Do mr desk gap l (\<sigma>, [])))" \<sigma>]
    by (simp add: Suc.IH)
qed

theorem Do_idempotent_witness:
  "Do_passes no_effect (0, 0, 1920, 1080) 5 one_master_two_slaves 2 ()
   = [([(1, 5, 5, 950, 1070), (2, 960, 5, 955, 533), (3, 960, 543, 955, 533)], None),
      ([(1, 5, 5, 950, 1070), (2, 960, 5, 955, 533), (3, 960, 543, 955, 533)], None)]"
proof -
  have "Do no_effect (0, 0, 1920, 1080) 5 one_master_two_slaves ((), [])
     = (((), [(1, 5, 5, 950, 1070), (2, 960, 5, 955, 533), (3, 960, 543, 955, 533)]), None)"
    by (simp add: eval_defs one_master_two_slaves_def)
  then show ?thesis
    using Do_idempotent [of no_effect "(0, 0, 1920, 1080)" 5 one_master_two_slaves 2 "()"]
    by (simp add: numeral_2_eq_2)
qed

section \<open>Setting a proportion\<close>

lemma sum_list_update_rat:
  fixes xs :: "rat list"
  shows "k < length xs \<Longrightarrow> sum_list (xs[k := v]) = sum_list xs - xs ! k + v"
  by (induction xs arbitrary: k) (auto split: nat.split)

lemma SetProportions_noop:
  "i = j \<or> i < 0 \<or> int (length ps) \<le> i \<or> j < 0 \<or> int (length ps) \<le> j
   \<Longrightarrow> SetProportions pmin ps val i j = ps"
  by (simp add: SetProportions_def)

lemma length_SetProportions [simp]: "length (SetProportions pmin ps val i j) = length ps"
  by (simp add: SetProportions_def Let_def)

lemma SetProportions_sum: "sum_list (SetProportions pmin ps val i j) = sum_list ps"
proof (cases "i = j \<or> i < 0 \<or> int (length ps) \<le> i \<or> j < 0 \<or> int (length ps) \<le> j")
  case True
  then show ?thesis by (simp add: SetProportions_noop)
next
  case False
  then have i: "nat i < length ps" and j: "nat j < length ps" and ij: "nat i \<noteq> nat j"
    by auto
  show ?thesis
    using False i j ij
    by (simp add: SetProportions_def Let_def sum_list_update_rat nth_list_update)
qed

lemma SetProportions_entries:
  assumes "i \<noteq> j" "0 \<le> i" "i < int (length ps)" "0 \<le> j" "j < int (length ps)"
    and "pmin \<le> val" "val \<le> ps ! nat i + ps ! nat j - pmin"
  shows "SetProportions pmin ps val i j ! nat i = val"
    and "SetProportions pmin ps val i j ! nat j = ps ! nat i + ps ! nat j - val"
  using assms by (auto simp add: SetProportions_def Let_def nth_list_update)

text \<open>
  C3.  A vector that sums to 1 still sums to 1 after \<open>SetProportions\<close>, for every value and
  every pair of indices.  Where the call takes effect, the complementary entry changes by
  what the set entry gave up, every other entry stays, and a value within the floor's
  bounds is stored as it is.
\<close>

theorem SetProportions_preserves_sum:
  assumes "sum_list ps = 1"
  shows "sum_list (SetProportions pmin ps val i j) = 1
         \<and> length (SetProportions pmin ps val i j) = length ps
         \<and> (i \<noteq> j \<and> 0 \<le> i \<and> i < int (length ps) \<and> 0 \<le> j \<and> j < int (length ps) \<longrightarrow>
              SetProportions pmin ps val i j ! nat j
                = ps ! nat j + (ps ! nat i - SetProportions pmin ps val i j ! nat i)
              \<and> (\<forall>k<length ps. k \<noteq> nat i \<and> k \<noteq> nat j \<longrightarrow>
                    SetProportions pmin ps val i j ! k = ps ! k)
              \<and> (pmin \<le> val \<and> val \<le> ps ! nat i + ps ! nat j - pmin \<longrightarrow>
                    SetProportions pmin ps val i j ! nat i = val))"
proof -
  have "i \<noteq> j \<and> 0 \<le> i \<and> i < int (length ps) \<and> 0 \<le> j \<and> j < int (length ps) \<longrightarrow>
              SetProportions pmin ps val i j ! nat j
                = ps ! nat j + (ps ! nat i - SetProportions pmin ps val i j ! nat i)
              \<and> (\<forall>k<length ps. k \<noteq> nat i \<and> k \<noteq> nat j \<longrightarrow>
                    SetProportions pmin ps val i j ! k = ps ! k)
              \<and> (pmin \<le> val \<and> val \<le> ps ! nat i + ps ! nat j - pmin \<longrightarrow>
                    SetProportions pmin ps val i j ! nat i = val)"
    by (auto simp add: SetProportions_def Let_def nth_list_update)
  then show ?thesis
    using assms by (simp only: SetProportions_sum length_SetProportions simp_thms)
qed

theorem SetProportions_preserves_sum_witness:
  "sum_list [1 / 2, 1 / 2 :: rat] = 1
   \<and> SetProportions (1 / 10) [1 / 2, 1 / 2] (7 / 10) 0 1 = [7 / 10, 3 / 10]
   \<and> sum_list (SetProportions (1 / 10) [1 / 2, 1 / 2] (7 / 10) 0 1) = 1"
proof -
  have h: "sum_list [1 / 2, 1 / 2 :: rat] = 1"
    by simp
  have ev: "SetProportions (1 / 10) [1 / 2, 1 / 2] (7 / 10) 0 1 = [7 / 10, 3 / 10]"
    by (simp add: SetProportions_def)
  show ?thesis
    using h ev SetProportions_preserves_sum [OF h, of "1 / 10" "7 / 10" 0 1] by simp
qed

section \<open>Which proportions a resize updates\<close>

lemma UpdateProportions_master:
  assumes "IsMaster l c" "Allowed (Masters l) \<noteq> 0"
  shows "UpdateProportions pmin (dx, dy, dw, dh) gap (cx, cy, cw, ch) l c d =
     Inr (l\<lparr>Proportions := (Proportions l)
            \<lparr>MasterSlave :=
               (if faces_other_partition l c d
                then SetProportions pmin (MasterSlave (Proportions l))
                       (of_int (cw + 2 * gap) / of_int dw)
                       (if VerticalLayout.Name l = ''vertical-left'' then 0 else 1)
                       (if VerticalLayout.Name l = ''vertical-left'' then 1 else 0)
                else MasterSlave (Proportions l)),
             MasterMaster :=
               (if Top d
                then SetProportions pmin (MasterMaster (Proportions l))
                       (of_int ch / of_int (dh - (row_size l c + 1) * gap))
                       (row_index l c) (row_index l c - 1)
                else if Bottom d
                then SetProportions pmin (MasterMaster (Proportions l))
                       (of_int ch / of_int (dh - (row_size l c + 1) * gap))
                       (row_index l c) (row_index l c + 1)
                else MasterMaster (Proportions l))\<rparr>\<rparr>,
          if VerticalLayout.Name l = ''vertical-left'' then d\<lparr>Left := Right d, Right := Left d\<rparr> else d)"
  using assms
  by (simp add: UpdateProportions_def Let_def faces_other_partition_def row_index_def row_size_def)

lemma UpdateProportions_slave:
  assumes "\<not> IsMaster l c" "Allowed (Slaves l) \<noteq> 0"
  shows "UpdateProportions pmin (dx, dy, dw, dh) gap (cx, cy, cw, ch) l c d =
     Inr (l\<lparr>Proportions := (Proportions l)
            \<lparr>MasterSlave :=
               (if faces_other_partition l c d
                then SetProportions pmin (MasterSlave (Proportions l))
                       (of_int (cw + gap) / of_int dw)
                       (if VerticalLayout.Name l = ''vertical-left'' then 1 else 0)
                       (if VerticalLayout.Name l = ''vertical-left'' then 0 else 1)
                else MasterSlave (Proportions l)),
             SlaveSlave :=
               (if Top d
                then SetProportions pmin (SlaveSlave (Proportions l))
                       (of_int ch / of_int (dh - (row_size l c + 1) * gap))
                       (row_index l c) (row_index l c - 1)
                else if Bottom d
                then SetProportions pmin (SlaveSlave (Proportions l))
                       (of_int ch / of_int (dh - (row_size l c + 1) * gap))
                       (row_index l c) (row_index l c + 1)
                else SlaveSlave (Proportions l))\<rparr>\<rparr>,
          if VerticalLayout.Name l = ''vertical-left'' then d\<lparr>Left := Right d, Right := Left d\<rparr> else d)"
  using assms
  by (simp add: UpdateProportions_def Let_def faces_other_partition_def row_index_def row_size_def)

lemma no_neighbour_noop:
  assumes "\<not> neighbour_moved l c d" "int (length ps) = row_size l c"
  shows "(if Top d then SetProportions pmin ps v (row_index l c) (row_index l c - 1)
          else if Bottom d then SetProportions pmin ps v (row_index l c) (row_index l c + 1)
          else ps) = ps"
  using assms by (auto simp add: neighbour_moved_def intro!: SetProportions_noop split: if_splits)

text \<open>
  C6.  With non-zero allowed counts \<open>UpdateProportions\<close> returns, and it changes nothing of
  the layout but its proportions.  When neither \<open>Top\<close> nor \<open>Bottom\<close> is set, \<open>MasterMaster\<close>
  and \<open>SlaveSlave\<close> stay as they are.  When the moved edge neither faces the other partition
  nor has a neighbour of the same row on its other side, and each row vector has one entry
  per client of a row, no proportion changes at all.
\<close>

theorem UpdateProportions_frame:
  assumes "Allowed (Masters l) \<noteq> 0" "Allowed (Slaves l) \<noteq> 0"
  shows "\<exists>l' d'. UpdateProportions pmin desk gap geom l c d = Inr (l', d')
           \<and> l' = l\<lparr>Proportions := Proportions l'\<rparr>
           \<and> (\<not> Top d \<and> \<not> Bottom d \<longrightarrow>
                MasterMaster (Proportions l') = MasterMaster (Proportions l)
                \<and> SlaveSlave (Proportions l') = SlaveSlave (Proportions l))
           \<and> (rows_sized l \<and> \<not> faces_other_partition l c d \<and> \<not> neighbour_moved l c d \<longrightarrow>
                Proportions l' = Proportions l)"
proof -
  obtain dx dy dw dh where desk: "desk = (dx, dy, dw, dh)"
    by (cases desk) auto
  obtain cx cy cw ch where geom: "geom = (cx, cy, cw, ch)"
    by (cases geom) auto
  show ?thesis
  proof (cases "IsMaster l c")
    case True
    have len: "int (length (MasterMaster (Proportions l))) = row_size l c" if "rows_sized l"
      using that True by (simp add: rows_sized_def row_size_def)
    show ?thesis
      unfolding desk geom UpdateProportions_master [OF True assms(1)]
      using no_neighbour_noop [OF _ len] by (simp add: Proportions.equality)
  next
    case False
    have len: "int (length (SlaveSlave (Proportions l))) = row_size l c" if "rows_sized l"
      using that False by (simp add: rows_sized_def row_size_def)
    show ?thesis
      unfolding desk geom UpdateProportions_slave [OF False assms(2)]
      using no_neighbour_noop [OF _ len] by (simp add: Proportions.equality)
  qed
qed

theorem UpdateProportions_frame_witness:
  "Allowed (Masters one_master_two_slaves) \<noteq> 0
   \<and> Allowed (Slaves one_master_two_slaves) \<noteq> 0
   \<and> \<not> Top right_moved \<and> \<not> Bottom right_moved
   \<and> (\<exists>l' d'. UpdateProportions (1 / 10) (0, 0, 1920, 1080) 5 (5, 5, 1334, 1070)
                 one_master_two_slaves 1 right_moved = Inr (l', d')
         \<and> MasterSlave (Proportions l') = [7 / 10, 3 / 10]
         \<and> MasterMaster (Proportions l') = MasterMaster (Proportions one_master_two_slaves)
         \<and> SlaveSlave (Proportions l') = SlaveSlave (Proportions one_master_two_slaves))"
proof -
  have h1: "Allowed (Masters one_master_two_slaves) \<noteq> 0"
    and h2: "Allowed (Slaves one_master_two_slaves) \<noteq> 0"
    by (simp_all add: one_master_two_slaves_def)
  have h3: "\<not> Top right_moved \<and> \<not> Bottom right_moved"
    by (simp add: right_moved_def)
  have ev: "UpdateProportions (1 / 10) (0, 0, 1920, 1080) 5 (5, 5, 1334, 1070)
                 one_master_two_slaves 1 right_moved
     = Inr (one_master_two_slaves\<lparr>Proportions := \<lparr>MasterSlave = [7 / 10, 3 / 10],
               MasterMaster = [1], SlaveSlave = [1 / 2, 1 / 2]\<rparr>\<rparr>,
            \<lparr>Top = False, Right = False, Bottom = False, Left = True\<rparr>)"
    by (simp add: UpdateProportions_def IsMaster_def one_master_two_slaves_def right_moved_def
        go_rem_def SetProportions_def)
  from UpdateProportions_frame [OF h1 h2, of "1 / 10" "(0, 0, 1920, 1080)" 5 "(5, 5, 1334, 1070)"
      1 right_moved]
  obtain l' d' where
    run: "UpdateProportions (1 / 10) (0, 0, 1920, 1080) 5 (5, 5, 1334, 1070)
                 one_master_two_slaves 1 right_moved = Inr (l', d')"
    and frame: "\<not> Top right_moved \<and> \<not> Bottom right_moved \<longrightarrow>
                MasterMaster (Proportions l') = MasterMaster (Proportions one_master_two_slaves)
                \<and> SlaveSlave (Proportions l') = SlaveSlave (Proportions one_master_two_slaves)"
    by blast
  have "MasterSlave (Proportions l') = [7 / 10, 3 / 10]"
    using run ev by auto
  then show ?thesis
    using h1 h2 h3 run frame by blast
qed

text \<open>
  C9.  When \<open>Top\<close> or \<open>Bottom\<close> is set, the vector of the client's partition becomes the
  result of \<open>SetProportions\<close> on it, with the client's height divided by the desktop height
  minus \<open>size + 1\<close> gaps as the value, the client's wrapped index as the entry to set, and the
  index above (\<open>Top\<close>) or else below (\<open>Bottom\<close>) as the complementary entry; the vector of
  the other partition stays.  Where both indices are in the vector and the value is within
  the floor's bounds, the entry at the client's index is that quotient and the neighbour
  keeps the rest of their old sum.
\<close>

theorem UpdateProportions_neighbour:
  assumes "Allowed (Masters l) \<noteq> 0" "Allowed (Slaves l) \<noteq> 0"
    and "Top d \<or> Bottom d"
    and "dh - (row_size l c + 1) * gap \<noteq> 0"
  shows "\<exists>l' d'. UpdateProportions pmin (dx, dy, dw, dh) gap (cx, cy, cw, ch) l c d = Inr (l', d')
           \<and> row_vector l' c
               = SetProportions pmin (row_vector l c)
                   (of_int ch / of_int (dh - (row_size l c + 1) * gap))
                   (row_index l c) (if Top d then row_index l c - 1 else row_index l c + 1)
           \<and> (IsMaster l c \<longrightarrow> SlaveSlave (Proportions l') = SlaveSlave (Proportions l))
           \<and> (\<not> IsMaster l c \<longrightarrow> MasterMaster (Proportions l') = MasterMaster (Proportions l))
           \<and> (0 \<le> row_index l c \<and> row_index l c < int (length (row_vector l c))
               \<and> 0 \<le> (if Top d then row_index l c - 1 else row_index l c + 1)
               \<and> (if Top d then row_index l c - 1 else row_index l c + 1)
                   < int (length (row_vector l c))
               \<and> pmin \<le> of_int ch / of_int (dh - (row_size l c + 1) * gap)
               \<and> of_int ch / of_int (dh - (row_size l c + 1) * gap)
                   \<le> row_vector l c ! nat (row_index l c)
                     + row_vector l c ! nat (if Top d then row_index l c - 1 else row_index l c + 1)
                     - pmin
               \<longrightarrow> row_vector l' c ! nat (row_index l c)
                     = of_int ch / of_int (dh - (row_size l c + 1) * gap)
                   \<and> row_vector l' c ! nat (if Top d then row_index l c - 1 else row_index l c + 1)
                     = row_vector l c ! nat (row_index l c)
                       + row_vector l c ! nat (if Top d then row_index l c - 1 else row_index l c + 1)
                       - of_int ch / of_int (dh - (row_size l c + 1) * gap))"
proof -
  define py where "py = rat_of_int ch / of_int (dh - (row_size l c + 1) * gap)"
  define i where "i = row_index l c"
  define j where "j = (if Top d then i - 1 else i + 1)"
  have ij: "i \<noteq> j"
    by (simp add: j_def)
  have "\<exists>l' d'. UpdateProportions pmin (dx, dy, dw, dh) gap (cx, cy, cw, ch) l c d = Inr (l', d')
           \<and> row_vector l' c = SetProportions pmin (row_vector l c) py i j
           \<and> (IsMaster l c \<longrightarrow> SlaveSlave (Proportions l') = SlaveSlave (Proportions l))
           \<and> (\<not> IsMaster l c \<longrightarrow> MasterMaster (Proportions l') = MasterMaster (Proportions l))"
  proof (cases "IsMaster l c")
    case True
    show ?thesis
      unfolding UpdateProportions_master [OF True assms(1)] py_def i_def j_def
      using True assms(3) by (auto simp add: row_vector_def IsMaster_def)
  next
    case False
    show ?thesis
      unfolding UpdateProportions_slave [OF False assms(2)] py_def i_def j_def
      using False assms(3) by (auto simp add: row_vector_def IsMaster_def)
  qed
  then obtain l' d' where
    run: "UpdateProportions pmin (dx, dy, dw, dh) gap (cx, cy, cw, ch) l c d = Inr (l', d')"
    and vec: "row_vector l' c = SetProportions pmin (row_vector l c) py i j"
    and ss: "IsMaster l c \<longrightarrow> SlaveSlave (Proportions l') = SlaveSlave (Proportions l)"
    and mm: "\<not> IsMaster l c \<longrightarrow> MasterMaster (Proportions l') = MasterMaster (Proportions l)"
    by blast
  have ent: "0 \<le> i \<and> i < int (length (row_vector l c)) \<and> 0 \<le> j \<and> j < int (length (row_vector l c))
      \<and> pmin \<le> py \<and> py \<le> row_vector l c ! nat i + row_vector l c ! nat j - pmin
      \<longrightarrow> row_vector l' c ! nat i = py
          \<and> row_vector l' c ! nat j = row_vector l c ! nat i + row_vector l c ! nat j - py"
    unfolding vec using SetProportions_entries [OF ij, of "row_vector l c" pmin py] by blast
  show ?thesis
    apply (rule exI [where x = l'])
    apply (rule exI [where x = d'])
    using run vec ss mm ent unfolding py_def i_def j_def by (intro conjI)
qed

theorem UpdateProportions_neighbour_witness:
  "Allowed (Masters one_master_two_slaves) \<noteq> 0
   \<and> Allowed (Slaves one_master_two_slaves) \<noteq> 0
   \<and> (Top top_moved \<or> Bottom top_moved)
   \<and> 1080 - (row_size one_master_two_slaves 3 + 1) * 5 \<noteq> 0
   \<and> (\<exists>l' d'. UpdateProportions (1 / 10) (0, 0, 1920, 1080) 5 (960, 436, 955, 639)
                 one_master_two_slaves 3 top_moved = Inr (l', d')
         \<and> row_vector l' 3 = [2 / 5, 3 / 5]
         \<and> MasterMaster (Proportions l') = [1]
         \<and> MasterSlave (Proportions l') = [1 / 2, 1 / 2])"
proof -
  have h1: "Allowed (Masters one_master_two_slaves) \<noteq> 0"
    and h2: "Allowed (Slaves one_master_two_slaves) \<noteq> 0"
    by (simp_all add: one_master_two_slaves_def)
  have h3: "Top top_moved \<or> Bottom top_moved"
    by (simp add: top_moved_def)
  have rs: "row_size one_master_two_slaves 3 = 2"
    by (simp add: row_size_def IsMaster_def one_master_two_slaves_def)
  have ri: "row_index one_master_two_slaves 3 = 1"
    by (simp add: row_index_def IsMaster_def one_master_two_slaves_def go_rem_def)
  have rv: "row_vector one_master_two_slaves 3 = [1 / 2, 1 / 2]"
    by (simp add: row_vector_def IsMaster_def one_master_two_slaves_def)
  have h4: "1080 - (row_size one_master_two_slaves 3 + 1) * 5 \<noteq> 0"
    by (simp add: rs)
  have nm: "\<not> IsMaster one_master_two_slaves 3"
    by (simp add: IsMaster_def one_master_two_slaves_def)
  have sp: "SetProportions (1 / 10) [1 / 2, 1 / 2] (3 / 5) 1 0 = [2 / 5, 3 / 5]"
    by (simp add: SetProportions_def)
  have ev: "UpdateProportions (1 / 10) (0, 0, 1920, 1080) 5 (960, 436, 955, 639)
                 one_master_two_slaves 3 top_moved
     = Inr (one_master_two_slaves\<lparr>Proportions := \<lparr>MasterSlave = [1 / 2, 1 / 2],
               MasterMaster = [1], SlaveSlave = [2 / 5, 3 / 5]\<rparr>\<rparr>, top_moved)"
    by (simp add: UpdateProportions_def IsMaster_def one_master_two_slaves_def top_moved_def
        go_rem_def SetProportions_def)
  from UpdateProportions_neighbour [OF h1 h2 h3 h4, of "1 / 10" 0 0 1920 960 436 955 639]
  obtain l' d' where
    run: "UpdateProportions (1 / 10) (0, 0, 1920, 1080) 5 (960, 436, 955, 639)
                 one_master_two_slaves 3 top_moved = Inr (l', d')"
    and vec: "row_vector l' 3 = SetProportions (1 / 10) (row_vector one_master_two_slaves 3)
                (rat_of_int 639 / rat_of_int (1080 - (row_size one_master_two_slaves 3 + 1) * 5))
                (row_index one_master_two_slaves 3)
                (if Top top_moved then row_index one_master_two_slaves 3 - 1
                 else row_index one_master_two_slaves 3 + 1)"
    by blast
  have vec': "row_vector l' 3 = [2 / 5, 3 / 5]"
    using vec by (simp add: rs ri rv top_moved_def sp)
  have l': "l' = one_master_two_slaves\<lparr>Proportions := \<lparr>MasterSlave = [1 / 2, 1 / 2],
               MasterMaster = [1], SlaveSlave = [2 / 5, 3 / 5]\<rparr>\<rparr>"
    using run ev by simp
  have rest: "MasterMaster (Proportions l') = [1]" "MasterSlave (Proportions l') = [1 / 2, 1 / 2]"
    by (simp_all add: l')
  show ?thesis
    using h1 h2 h3 h4 run vec' rest by blast
qed

end
